theory Spec2Isabelle
  imports Main
begin

section \<open>Identifiers and their text form\<close>

text \<open>
  The tables key every row by a \<^verbatim>\<open>uuid\<close>. A uuid value is represented here by its
  canonical text (what \<^verbatim>\<open>id::text\<close> prints: 32 lower-case hexadecimal digits in groups
  8-4-4-4-12), so \<^verbatim>\<open>cl.id::text\<close> is the identity. The cast \<^verbatim>\<open>(key)::uuid\<close> of
  \<^verbatim>\<open>admin_apply_simulation\<close> is the database's uuid input routine: an optional pair of
  braces, 16 bytes of two hexadecimal digits in either case, and an optional hyphen after
  every second byte; it yields the canonical text or fails.
\<close>

type_synonym uuid = string

definition is_xdigit :: "char \<Rightarrow> bool" where
  "is_xdigit c = (c \<in> set ''0123456789abcdefABCDEF'')"

definition lower_hex :: "char \<Rightarrow> char" where
  "lower_hex c = (case map_of (zip ''ABCDEF'' ''abcdef'') c of Some l \<Rightarrow> l | None \<Rightarrow> c)"

fun uuid_bytes :: "nat \<Rightarrow> string \<Rightarrow> (string \<times> string) option" where
  "uuid_bytes 0 src = Some ([], src)"
| "uuid_bytes (Suc n) (a # b # rest) =
     (if is_xdigit a \<and> is_xdigit b
      then (let i = 15 - n;
                rest' = (case rest of
                           [] \<Rightarrow> rest
                         | c # r \<Rightarrow> if c = CHR ''-'' \<and> i mod 2 = 1 \<and> i < 15 then r else rest)
            in case uuid_bytes n rest' of
                 None \<Rightarrow> None
               | Some (ds, more) \<Rightarrow> Some (lower_hex a # lower_hex b # ds, more))
      else None)"
| "uuid_bytes (Suc n) _ = None"

definition hyphenate :: "string \<Rightarrow> string" where
  "hyphenate ds =
     take 8 ds @ ''-'' @ take 4 (drop 8 ds) @ ''-'' @ take 4 (drop 12 ds) @ ''-'' @
     take 4 (drop 16 ds) @ ''-'' @ drop 20 ds"

definition uuid_in :: "string \<Rightarrow> uuid option" where
  "uuid_in source =
     (let braces = (take 1 source = ''{'');
          src = (if braces then drop 1 source else source)
      in case uuid_bytes 16 src of
           None \<Rightarrow> None
         | Some (ds, rest) \<Rightarrow>
             if rest = (if braces then ''}'' else []) then Some (hyphenate ds) else None)"

text \<open>A text is canonical when the input routine reads it and prints it back unchanged.\<close>

definition is_canonical :: "string \<Rightarrow> bool" where
  "is_canonical u = (uuid_in u = Some u)"

section \<open>Tables\<close>

text \<open>
  The three relations of the voting schema, with the columns the procedures and the
  constraints read or write (titles, colours, dates, \<^verbatim>\<open>updated_at\<close>,
  \<^verbatim>\<open>votes.confirmed\<close> and \<^verbatim>\<open>votes.created_at\<close> are left out; nothing branches on
  them). A table is the list of its rows. \<^verbatim>\<open>auth_users\<close> holds the ids of
  \<^verbatim>\<open>auth.users\<close>, the target of the foreign key of \<^verbatim>\<open>votes.user_id\<close>.
\<close>

datatype election_status =
  draft | scheduled | campaign | voting_open | paused | voting_closed | results_published

record election =
  e_id :: uuid
  status :: election_status
  total_votes :: int

record candidate_list =
  cl_id :: uuid
  cl_election_id :: uuid
  votes_count :: int

record vote =
  v_id :: uuid
  v_election_id :: uuid
  v_candidate_list_id :: uuid
  v_user_id :: uuid
  receipt_hash :: string

record db =
  elections :: "election list"
  candidate_lists :: "candidate_list list"
  votes :: "vote list"
  auth_users :: "uuid list"

text \<open>
  Errors are values. The first four are raised by the procedures of the repository
  themselves, the others by the database underneath them (SQLSTATE in the comment).
\<close>

datatype pg_error =
    SoloAdministradores          \<comment> \<open>42501, raised by both admin procedures\<close>
  | EleccionNoEncontrada         \<comment> \<open>22023, raised by admin_apply_simulation\<close>
  | ListaNoCorresponde uuid      \<comment> \<open>23503, raised by admin_apply_simulation\<close>
  | YaExisteVoto                 \<comment> \<open>23505, re-raised by cast_vote on unique_violation\<close>
  | ListaNoValida                \<comment> \<open>23503, re-raised by cast_vote on foreign_key_violation\<close>
  | RowSecurityViolation         \<comment> \<open>42501, new row violates the row-level security policy\<close>
  | UniqueViolation              \<comment> \<open>23505\<close>
  | ForeignKeyViolation          \<comment> \<open>23503\<close>
  | NumericValueOutOfRange       \<comment> \<open>22003, integer out of range\<close>
  | InvalidTextRepresentation    \<comment> \<open>22P02, a text that is no uuid or no integer\<close>
  | CannotExtractElements        \<comment> \<open>22023, jsonb_array_elements_text on a non-array\<close>
  | NotAnObject                  \<comment> \<open>22023, jsonb_each_text on a non-object\<close>

text \<open>Columns of type \<^verbatim>\<open>integer\<close> hold 32 bits; an addition that leaves the range raises.\<close>

definition int4_range :: "int \<Rightarrow> bool" where
  "int4_range n = (- 2147483648 \<le> n \<and> n \<le> 2147483647)"

definition add_int4 :: "int \<Rightarrow> int \<Rightarrow> pg_error + int" where
  "add_int4 a b = (if int4_range (a + b) then Inr (a + b) else Inl NumericValueOutOfRange)"

text \<open>
  \<^verbatim>\<open>UPDATE t SET ... WHERE w\<close>: every row that satisfies \<open>w\<close> is replaced; an error
  in any row aborts the statement.
\<close>

fun update_rows :: "('r \<Rightarrow> bool) \<Rightarrow> ('r \<Rightarrow> pg_error + 'r) \<Rightarrow> 'r list \<Rightarrow> pg_error + 'r list" where
  "update_rows w f [] = Inr []"
| "update_rows w f (r # rs) =
     (case (if w r then f r else Inr r) of
        Inl e \<Rightarrow> Inl e
      | Inr r' \<Rightarrow> (case update_rows w f rs of Inl e \<Rightarrow> Inl e | Inr rs' \<Rightarrow> Inr (r' # rs')))"

section \<open>The caller's session and its role claims\<close>

text \<open>
  \<^verbatim>\<open>auth.jwt()\<close> carries the caller's user id and, under \<^verbatim>\<open>app_metadata\<close> and
  \<^verbatim>\<open>user_metadata\<close>, a \<^verbatim>\<open>roles\<close> member. That member is absent, or it is not an array, or
  it is an array; \<^verbatim>\<open>jsonb_array_elements_text\<close> turns each element of an array into its
  text, and a JSON null into the SQL null (\<open>None\<close>). \<^verbatim>\<open>auth.role()\<close> is
  \<^verbatim>\<open>authenticated\<close> for a session that carries a user id and \<^verbatim>\<open>anon\<close> otherwise.
\<close>

datatype roles_claim = Absent | NotArray | RoleArray "string option list"

record session =
  uid :: "uuid option"
  app_roles :: roles_claim
  user_roles :: roles_claim

definition auth_role :: "session \<Rightarrow> string" where
  "auth_role s = (case uid s of None \<Rightarrow> ''anon'' | Some u \<Rightarrow> ''authenticated'')"

definition claim_elements :: "roles_claim \<Rightarrow> pg_error + string option list" where
  "claim_elements c =
     (case c of Absent \<Rightarrow> Inr [] | NotArray \<Rightarrow> Inl CannotExtractElements | RoleArray xs \<Rightarrow> Inr xs)"

definition jwt_roles :: "session \<Rightarrow> pg_error + string option list" where
  "jwt_roles s =
     (case claim_elements (app_roles s) of
        Inl e \<Rightarrow> Inl e
      | Inr r1 \<Rightarrow> (case claim_elements (user_roles s) of
                    Inl e \<Rightarrow> Inl e
                  | Inr r2 \<Rightarrow> Inr (r1 @ r2)))"

text \<open>
  \<^verbatim>\<open>x = any(arr)\<close> in SQL's three-valued logic: true when an element equals \<open>x\<close>;
  otherwise null when the array holds a null, and false when it holds none.
\<close>

definition eq_any :: "string \<Rightarrow> string option list \<Rightarrow> bool option" where
  "eq_any x arr =
     (if Some x \<in> set arr then Some True else if None \<in> set arr then None else Some False)"

definition is_admin :: "session \<Rightarrow> pg_error + bool option" where
  "is_admin s = (case jwt_roles s of Inl e \<Rightarrow> Inl e | Inr rs \<Rightarrow> Inr (eq_any ''administrator'' rs))"

definition is_committee :: "session \<Rightarrow> pg_error + bool option" where
  "is_committee s =
     (case jwt_roles s of Inl e \<Rightarrow> Inl e | Inr rs \<Rightarrow> Inr (eq_any ''electoral_committee'' rs))"

section \<open>Row-level security\<close>

text \<open>
  A row policy admits a row only when its expression is true (null does not admit), and
  an error raised while a policy is evaluated fails the statement.
  \<^verbatim>\<open>elections\<close> and \<^verbatim>\<open>candidate_lists\<close> can be read under two permissive policies:
  \<^verbatim>\<open>*_write\<close> (\<^verbatim>\<open>is_admin()\<close>) or \<^verbatim>\<open>*_select\<close> (\<^verbatim>\<open>auth.role() = 'authenticated'\<close>).
  Every read of either table evaluates \<^verbatim>\<open>is_admin()\<close>, so a caller whose roles claim is
  no array cannot read them at all: the read raises.
\<close>

definition catalog_readable :: "session \<Rightarrow> pg_error + bool" where
  "catalog_readable s =
     (case is_admin s of
        Inl e \<Rightarrow> Inl e
      | Inr a \<Rightarrow> Inr (a = Some True \<or> auth_role s = ''authenticated''))"

definition readable_elections :: "session \<Rightarrow> db \<Rightarrow> pg_error + election list" where
  "readable_elections s d =
     (case catalog_readable s of
        Inl e \<Rightarrow> Inl e
      | Inr ok \<Rightarrow> Inr (if ok then elections d else []))"

definition readable_candidate_lists :: "session \<Rightarrow> db \<Rightarrow> pg_error + candidate_list list" where
  "readable_candidate_lists s d =
     (case catalog_readable s of
        Inl e \<Rightarrow> Inl e
      | Inr ok \<Rightarrow> Inr (if ok then candidate_lists d else []))"

text \<open>
  \<^verbatim>\<open>votes_select\<close>: \<^verbatim>\<open>user_id = auth.uid() or is_admin() or is_committee()\<close>, one
  expression, evaluated from the left until a disjunct is true.
\<close>

definition votes_select :: "session \<Rightarrow> db \<Rightarrow> vote \<Rightarrow> pg_error + bool" where
  "votes_select s d v =
     (if Some (v_user_id v) = uid s then Inr True
      else (case is_admin s of
              Inl e \<Rightarrow> Inl e
            | Inr a \<Rightarrow>
                if a = Some True then Inr True
                else (case is_committee s of Inl e \<Rightarrow> Inl e | Inr c \<Rightarrow> Inr (c = Some True))))"

text \<open>
  \<^verbatim>\<open>votes_insert\<close>, the \<^verbatim>\<open>WITH CHECK\<close> of an inserted row: a conjunction evaluated from
  the left until a conjunct is not true, so the subqueries are reached only by a caller
  with a user id that is the row's. Each subquery is a read under the caller's own
  policies. In the second subquery the unqualified \<^verbatim>\<open>election_id\<close> of
  \<^verbatim>\<open>cl.election_id = election_id\<close> is resolved in the innermost scope that has a column of
  that name, and \<^verbatim>\<open>candidate_lists\<close> has one: the comparison is of the list's own column
  with itself. (\<^verbatim>\<open>elections\<close> has no such column, so in the first subquery the name is the
  new row's.)
\<close>

definition votes_insert :: "session \<Rightarrow> db \<Rightarrow> vote \<Rightarrow> pg_error + bool" where
  "votes_insert s d new =
     (if uid s = None then Inr False
      else if Some (v_user_id new) \<noteq> uid s then Inr False
      else (case readable_elections s d of
              Inl e \<Rightarrow> Inl e
            | Inr es \<Rightarrow>
                if \<not> list_ex (\<lambda>e. e_id e = v_election_id new \<and> status e = voting_open) es
                then Inr False
                else (case readable_candidate_lists s d of
                        Inl e \<Rightarrow> Inl e
                      | Inr cls \<Rightarrow>
                          Inr (list_ex (\<lambda>cl. cl_id cl = v_candidate_list_id new
                                            \<and> cl_election_id cl = cl_election_id cl) cls))))"

text \<open>
  The policies of \<^verbatim>\<open>votes\<close>, as the migration declares them: one for \<^verbatim>\<open>SELECT\<close>, one
  for \<^verbatim>\<open>INSERT\<close>, none for \<^verbatim>\<open>UPDATE\<close> or \<^verbatim>\<open>DELETE\<close>. With row-level security enabled a
  command touches a row only if a policy for that command admits it; with no policy for
  the command nothing is evaluated and no row is admitted.
\<close>

datatype command = Select | Insert | Update | Delete

definition votes_policies ::
  "(string \<times> command \<times> (session \<Rightarrow> db \<Rightarrow> vote \<Rightarrow> pg_error + bool)) list" where
  "votes_policies = [(''votes_select'', Select, votes_select), (''votes_insert'', Insert, votes_insert)]"

fun any_policy :: "(pg_error + bool) list \<Rightarrow> pg_error + bool" where
  "any_policy [] = Inr False"
| "any_policy (Inl e # rs) = Inl e"
| "any_policy (Inr b # rs) = (if b then Inr True else any_policy rs)"

definition votes_permitted :: "command \<Rightarrow> session \<Rightarrow> db \<Rightarrow> vote \<Rightarrow> pg_error + bool" where
  "votes_permitted c s d v =
     any_policy (map (\<lambda>(n, c', p). p s d v) (filter (\<lambda>(n, c', p). c' = c) votes_policies))"

section \<open>Constraints of the votes table\<close>

definition votes_unique_ok :: "vote \<Rightarrow> db \<Rightarrow> bool" where
  "votes_unique_ok new d =
     (v_id new \<notin> set (map v_id (votes d))
      \<and> (v_user_id new, v_election_id new) \<notin> set (map (\<lambda>v. (v_user_id v, v_election_id v)) (votes d))
      \<and> receipt_hash new \<notin> set (map receipt_hash (votes d)))"

definition votes_fk_ok :: "vote \<Rightarrow> db \<Rightarrow> bool" where
  "votes_fk_ok new d =
     (v_election_id new \<in> set (map e_id (elections d))
      \<and> (v_candidate_list_id new, v_election_id new)
            \<in> set (map (\<lambda>cl. (cl_id cl, cl_election_id cl)) (candidate_lists d))
      \<and> v_user_id new \<in> set (auth_users d))"

section \<open>Receipts and the insert trigger\<close>

text \<open>
  \<^verbatim>\<open>gen_random_uuid()\<close> is the only source of randomness; each call is an argument of
  the model. \<^verbatim>\<open>make_receipt\<close> removes the hyphens from the text of one random uuid.
\<close>

definition make_receipt :: "uuid \<Rightarrow> string" where
  "make_receipt g = filter (\<lambda>c. c \<noteq> CHR ''-'') g"

definition set_total :: "int \<Rightarrow> election \<Rightarrow> election" where
  "set_total n e = e\<lparr>total_votes := n\<rparr>"

definition set_count :: "int \<Rightarrow> candidate_list \<Rightarrow> candidate_list" where
  "set_count n cl = cl\<lparr>votes_count := n\<rparr>"

definition add_total :: "int \<Rightarrow> election \<Rightarrow> pg_error + election" where
  "add_total n e = (case add_int4 (total_votes e) n of Inl x \<Rightarrow> Inl x | Inr t \<Rightarrow> Inr (set_total t e))"

definition add_count :: "int \<Rightarrow> candidate_list \<Rightarrow> pg_error + candidate_list" where
  "add_count n cl = (case add_int4 (votes_count cl) n of Inl x \<Rightarrow> Inl x | Inr t \<Rightarrow> Inr (set_count t cl))"

text \<open>
  \<^verbatim>\<open>votes_after_insert\<close>, fired after the row \<open>new\<close> is in the table: a receipt for a row
  that came without one (\<open>g\<close> is the random uuid of that call; the unique index on
  \<^verbatim>\<open>receipt_hash\<close> checks the update), then both counters.
\<close>

definition assign_receipt :: "uuid \<Rightarrow> vote \<Rightarrow> db \<Rightarrow> pg_error + db" where
  "assign_receipt g new d =
     (if length (receipt_hash new) = 0
      then (let r = make_receipt g in
            if r \<in> set (map receipt_hash (filter (\<lambda>v. v_id v \<noteq> v_id new) (votes d)))
            then Inl UniqueViolation
            else Inr (d\<lparr>votes := map (\<lambda>v. if v_id v = v_id new then v\<lparr>receipt_hash := r\<rparr> else v) (votes d)\<rparr>))
      else Inr d)"

definition votes_after_insert :: "uuid \<Rightarrow> vote \<Rightarrow> db \<Rightarrow> pg_error + db" where
  "votes_after_insert g new d =
     (case assign_receipt g new d of
        Inl e \<Rightarrow> Inl e
      | Inr d1 \<Rightarrow>
          (case update_rows (\<lambda>e. e_id e = v_election_id new) (add_total 1) (elections d1) of
             Inl e \<Rightarrow> Inl e
           | Inr es \<Rightarrow>
               (case update_rows (\<lambda>cl. cl_id cl = v_candidate_list_id new) (add_count 1)
                       (candidate_lists d1) of
                  Inl e \<Rightarrow> Inl e
                | Inr cls \<Rightarrow> Inr (d1\<lparr>elections := es, candidate_lists := cls\<rparr>))))"

section \<open>Inserting a ballot\<close>

text \<open>
  One \<^verbatim>\<open>INSERT INTO votes\<close> by a session subject to row-level security, in the order
  the database works: the policy's check on the new row, before the row is stored; the
  unique indexes (primary key, one_vote_per_user_per_election, votes_receipt_hash_idx) as
  the row is stored; and after the statement the row triggers in the order of their names,
  first the foreign keys (among them the composite votes_candidate_list_matches_election),
  then \<^verbatim>\<open>trg_votes_after_insert\<close>. Any error leaves the database as it was.
\<close>

definition insert_vote :: "session \<Rightarrow> uuid \<Rightarrow> vote \<Rightarrow> db \<Rightarrow> pg_error + db" where
  "insert_vote s g new d =
     (case votes_permitted Insert s d new of
        Inl e \<Rightarrow> Inl e
      | Inr admitted \<Rightarrow>
          if \<not> admitted then Inl RowSecurityViolation
          else if \<not> votes_unique_ok new d then Inl UniqueViolation
          else if \<not> votes_fk_ok new d then Inl ForeignKeyViolation
          else votes_after_insert g new (d\<lparr>votes := votes d @ [new]\<rparr>))"

text \<open>
  The random uuids one \<^verbatim>\<open>cast_vote\<close> may draw: the default of \<^verbatim>\<open>votes.id\<close>, the
  argument of \<^verbatim>\<open>make_receipt()\<close> in the \<^verbatim>\<open>VALUES\<close> list, and the one of the trigger.
\<close>

record draws =
  id_draw :: uuid
  receipt_draw :: uuid
  trigger_draw :: uuid

text \<open>
  \<^verbatim>\<open>cast_vote(p_election, p_list)\<close>, \<^verbatim>\<open>security invoker\<close>. Without a user id the new row
  has a null \<^verbatim>\<open>user_id\<close> and the policy (\<^verbatim>\<open>auth.uid() is not null\<close>) refuses it first. The
  handler re-raises a unique violation and a foreign-key violation under the procedure's
  own messages; any other error passes unchanged. The row returned is the row as inserted
  (\<^verbatim>\<open>RETURNING *\<close>); the select policy admits it, its \<^verbatim>\<open>user_id\<close> being the caller's.
\<close>

definition cast_vote :: "session \<Rightarrow> draws \<Rightarrow> uuid \<Rightarrow> uuid \<Rightarrow> db \<Rightarrow> pg_error + (vote \<times> db)" where
  "cast_vote s g p_election p_list d =
     (case uid s of
        None \<Rightarrow> Inl RowSecurityViolation
      | Some u \<Rightarrow>
          (let v = \<lparr>v_id = id_draw g, v_election_id = p_election, v_candidate_list_id = p_list,
                    v_user_id = u, receipt_hash = make_receipt (receipt_draw g)\<rparr>
           in case insert_vote s (trigger_draw g) v d of
                Inl UniqueViolation \<Rightarrow> Inl YaExisteVoto
              | Inl ForeignKeyViolation \<Rightarrow> Inl ListaNoValida
              | Inl e \<Rightarrow> Inl e
              | Inr d' \<Rightarrow> Inr (v, d')))"

text \<open>The row \<^verbatim>\<open>cast_vote\<close> inserts for the user \<open>u\<close>, as a term of its own.\<close>

definition ballot_of :: "uuid \<Rightarrow> draws \<Rightarrow> uuid \<Rightarrow> uuid \<Rightarrow> vote" where
  "ballot_of u g p_election p_list =
     \<lparr>v_id = id_draw g, v_election_id = p_election, v_candidate_list_id = p_list,
      v_user_id = u, receipt_hash = make_receipt (receipt_draw g)\<rparr>"

text \<open>
  \<^verbatim>\<open>checkEligibility\<close> of the client hook: the election's status read through the
  caller's own session; the hook answers false when the query fails, and \<^verbatim>\<open>.single()\<close>
  fails unless exactly one row comes back.
\<close>

definition checkEligibility :: "session \<Rightarrow> uuid \<Rightarrow> db \<Rightarrow> bool" where
  "checkEligibility s electionId d =
     (case readable_elections s d of
        Inl error \<Rightarrow> False
      | Inr es \<Rightarrow>
          (case filter (\<lambda>e. e_id e = electionId) es of
             [e] \<Rightarrow> status e = voting_open
           | _ \<Rightarrow> False))"

section \<open>Administrative bulk-tally procedures\<close>

text \<open>
  The \<^verbatim>\<open>jsonb\<close> argument of \<^verbatim>\<open>admin_apply_simulation\<close>. \<^verbatim>\<open>jsonb_each_text\<close> raises on
  anything but an object and yields, for an object, each key with the text of its value;
  the procedure casts the key to \<^verbatim>\<open>uuid\<close> and the value to \<^verbatim>\<open>int\<close>. A value is
  classified by what that cast makes of it: a JSON null (the SQL null), a value whose text
  is the decimal integer \<open>n\<close>, or a value whose text is no integer. The keys of an object
  are distinct.
\<close>

datatype jvalue = JNull | JInt int | JOther

datatype jsonb = JObject "(string \<times> jvalue) list" | JNotObject

definition cast_int :: "jvalue \<Rightarrow> pg_error + int option" where
  "cast_int v =
     (case v of
        JNull \<Rightarrow> Inr None
      | JInt n \<Rightarrow> if int4_range n then Inr (Some n) else Inl NumericValueOutOfRange
      | JOther \<Rightarrow> Inl InvalidTextRepresentation)"

definition coalesce :: "int option \<Rightarrow> int \<Rightarrow> int" where
  "coalesce v dflt = (case v of None \<Rightarrow> dflt | Some n \<Rightarrow> n)"

text \<open>
  The \<^verbatim>\<open>FOR\<close> loop of \<^verbatim>\<open>admin_apply_simulation\<close>: every key must name a list of the
  election; \<^verbatim>\<open>v_total\<close> accumulates the counts. (The loop fetches its rows in batches,
  so when several entries would raise, the source does not fix which error comes out;
  nothing below depends on it. Arguments are taken to be non-null.)
\<close>

fun sum_and_validate :: "uuid \<Rightarrow> db \<Rightarrow> (string \<times> jvalue) list \<Rightarrow> int \<Rightarrow> pg_error + int" where
  "sum_and_validate p_election_id d [] v_total = Inr v_total"
| "sum_and_validate p_election_id d ((k, v) # rest) v_total =
     (case uuid_in k of
        None \<Rightarrow> Inl InvalidTextRepresentation
      | Some v_list_id \<Rightarrow>
          (case cast_int v of
             Inl e \<Rightarrow> Inl e
           | Inr v_votes \<Rightarrow>
               if \<not> list_ex (\<lambda>cl. cl_id cl = v_list_id \<and> cl_election_id cl = p_election_id)
                        (candidate_lists d)
               then Inl (ListaNoCorresponde v_list_id)
               else (case add_int4 v_total (coalesce v_votes 0) of
                       Inl e \<Rightarrow> Inl e
                     | Inr t \<Rightarrow> sum_and_validate p_election_id d rest t)))"

text \<open>
  \<^verbatim>\<open>coalesce((p_distribution ->> cl.id::text)::int, 0)\<close>: the object is searched for the
  key that is the text of the list's id.
\<close>

definition list_increment :: "(string \<times> jvalue) list \<Rightarrow> candidate_list \<Rightarrow> pg_error + int" where
  "list_increment kvs cl =
     (case map_of kvs (cl_id cl) of
        None \<Rightarrow> Inr 0
      | Some v \<Rightarrow> (case cast_int v of Inl e \<Rightarrow> Inl e | Inr n \<Rightarrow> Inr (coalesce n 0)))"

definition add_distribution :: "(string \<times> jvalue) list \<Rightarrow> candidate_list \<Rightarrow> pg_error + candidate_list" where
  "add_distribution kvs cl =
     (case list_increment kvs cl of Inl e \<Rightarrow> Inl e | Inr n \<Rightarrow> add_count n cl)"

text \<open>
  \<^verbatim>\<open>if not public.is_admin() then raise\<close>: the branch is taken only when the condition is
  true, that is when \<^verbatim>\<open>is_admin()\<close> is false; a null \<^verbatim>\<open>is_admin()\<close> leaves a null
  condition and the procedure goes on.
\<close>

definition admin_guard :: "session \<Rightarrow> pg_error + unit" where
  "admin_guard s =
     (case is_admin s of
        Inl e \<Rightarrow> Inl e
      | Inr a \<Rightarrow> if a = Some False then Inl SoloAdministradores else Inr ())"

definition admin_apply_simulation :: "session \<Rightarrow> uuid \<Rightarrow> jsonb \<Rightarrow> db \<Rightarrow> pg_error + db" where
  "admin_apply_simulation s p_election_id p_distribution d =
     (case admin_guard s of
        Inl e \<Rightarrow> Inl e
      | Inr _ \<Rightarrow>
          if \<not> list_ex (\<lambda>e. e_id e = p_election_id) (elections d) then Inl EleccionNoEncontrada
          else (case p_distribution of
                  JNotObject \<Rightarrow> Inl NotAnObject
                | JObject kvs \<Rightarrow>
                    (case sum_and_validate p_election_id d kvs 0 of
                       Inl e \<Rightarrow> Inl e
                     | Inr v_total \<Rightarrow>
                         (case update_rows (\<lambda>cl. cl_election_id cl = p_election_id)
                                 (add_distribution kvs) (candidate_lists d) of
                            Inl e \<Rightarrow> Inl e
                          | Inr cls \<Rightarrow>
                              (case update_rows (\<lambda>e. e_id e = p_election_id) (add_total v_total)
                                      (elections d) of
                                 Inl e \<Rightarrow> Inl e
                               | Inr es \<Rightarrow> Inr (d\<lparr>candidate_lists := cls, elections := es\<rparr>))))))"

definition admin_reset_election_votes :: "session \<Rightarrow> uuid \<Rightarrow> db \<Rightarrow> pg_error + db" where
  "admin_reset_election_votes s p_election_id d =
     (case admin_guard s of
        Inl e \<Rightarrow> Inl e
      | Inr _ \<Rightarrow>
          Inr (d\<lparr>votes := filter (\<lambda>v. v_election_id v \<noteq> p_election_id) (votes d),
                 candidate_lists :=
                   map (\<lambda>cl. if cl_election_id cl = p_election_id then set_count 0 cl else cl)
                     (candidate_lists d),
                 elections :=
                   map (\<lambda>e. if e_id e = p_election_id then set_total 0 e else e) (elections d)\<rparr>))"

section \<open>Direct access to the votes table\<close>

text \<open>
  Besides the procedures, an authenticated client reaches \<^verbatim>\<open>votes\<close> through the table
  interface, under row-level security: an insert of a row of its choosing, and updates
  and deletes of the rows a policy for that command admits. The constraints of the table
  are checked on the rows an update wrote.
\<close>

definition votes_unique_constraints :: "db \<Rightarrow> bool" where
  "votes_unique_constraints d =
     (distinct (map v_id (votes d))
      \<and> distinct (map (\<lambda>v. (v_user_id v, v_election_id v)) (votes d))
      \<and> distinct (map receipt_hash (votes d)))"

definition votes_fk_constraints :: "db \<Rightarrow> bool" where
  "votes_fk_constraints d = list_all (\<lambda>v. votes_fk_ok v d) (votes d)"

text \<open>The first error among the policy evaluations of the rows a command looks at.\<close>

fun first_error :: "(pg_error + bool) list \<Rightarrow> pg_error option" where
  "first_error [] = None"
| "first_error (Inl e # rs) = Some e"
| "first_error (Inr b # rs) = first_error rs"

definition rest_update_votes :: "session \<Rightarrow> (vote \<Rightarrow> bool) \<Rightarrow> (vote \<Rightarrow> vote) \<Rightarrow> db \<Rightarrow> pg_error + db" where
  "rest_update_votes s w f d =
     (case first_error (map (votes_permitted Update s d) (votes d)) of
        Some e \<Rightarrow> Inl e
      | None \<Rightarrow>
          (let target = (\<lambda>v. votes_permitted Update s d v = Inr True \<and> w v) in
           if filter target (votes d) = [] then Inr d
           else (let d' = d\<lparr>votes := map (\<lambda>v. if target v then f v else v) (votes d)\<rparr> in
                 if list_ex (\<lambda>v. target v \<and> votes_permitted Update s d (f v) \<noteq> Inr True) (votes d)
                 then Inl RowSecurityViolation
                 else if \<not> votes_unique_constraints d' then Inl UniqueViolation
                 else if \<not> votes_fk_constraints d' then Inl ForeignKeyViolation
                 else Inr d')))"

definition rest_delete_votes :: "session \<Rightarrow> (vote \<Rightarrow> bool) \<Rightarrow> db \<Rightarrow> pg_error + db" where
  "rest_delete_votes s w d =
     (case first_error (map (votes_permitted Delete s d) (votes d)) of
        Some e \<Rightarrow> Inl e
      | None \<Rightarrow>
          Inr (d\<lparr>votes := filter (\<lambda>v. \<not> (votes_permitted Delete s d v = Inr True \<and> w v))
                              (votes d)\<rparr>))"

section \<open>Operations and runs\<close>

text \<open>
  One completed call. A call that raises is rolled back: the database is the one before
  the call.
\<close>

datatype operation =
    CastVote session draws uuid uuid
  | InsertVote session uuid vote
  | UpdateVotes session "vote \<Rightarrow> bool" "vote \<Rightarrow> vote"
  | DeleteVotes session "vote \<Rightarrow> bool"
  | ApplySimulatedDistribution session uuid jsonb
  | ResetElectionVotes session uuid

fun perform :: "operation \<Rightarrow> db \<Rightarrow> pg_error + db" where
  "perform (CastVote s g p_election p_list) d =
     (case cast_vote s g p_election p_list d of Inl e \<Rightarrow> Inl e | Inr (v, d') \<Rightarrow> Inr d')"
| "perform (InsertVote s g new) d = insert_vote s g new d"
| "perform (UpdateVotes s w f) d = rest_update_votes s w f d"
| "perform (DeleteVotes s w) d = rest_delete_votes s w d"
| "perform (ApplySimulatedDistribution s p_election_id p_distribution) d =
     admin_apply_simulation s p_election_id p_distribution d"
| "perform (ResetElectionVotes s p_election_id) d = admin_reset_election_votes s p_election_id d"

definition step :: "operation \<Rightarrow> db \<Rightarrow> db" where
  "step c d = (case perform c d of Inl e \<Rightarrow> d | Inr d' \<Rightarrow> d')"

definition run :: "operation list \<Rightarrow> db \<Rightarrow> db" where
  "run cs d = fold step cs d"

fun is_reset :: "operation \<Rightarrow> bool" where
  "is_reset (ResetElectionVotes s p_election_id) = True"
| "is_reset _ = False"

section \<open>Invariants of the schema and of the tally\<close>

definition one_vote_per_user_per_election :: "db \<Rightarrow> bool" where
  "one_vote_per_user_per_election d = distinct (map (\<lambda>v. (v_user_id v, v_election_id v)) (votes d))"

definition votes_receipt_hash_idx :: "db \<Rightarrow> bool" where
  "votes_receipt_hash_idx d = distinct (map receipt_hash (votes d))"

definition elections_pkey :: "db \<Rightarrow> bool" where
  "elections_pkey d = distinct (map e_id (elections d))"

definition candidate_lists_pkey :: "db \<Rightarrow> bool" where
  "candidate_lists_pkey d = distinct (map cl_id (candidate_lists d))"

definition list_votes :: "db \<Rightarrow> uuid \<Rightarrow> int" where
  "list_votes d eid =
     sum_list (map votes_count (filter (\<lambda>cl. cl_election_id cl = eid) (candidate_lists d)))"

definition ballots :: "db \<Rightarrow> uuid \<Rightarrow> vote list" where
  "ballots d eid = filter (\<lambda>v. v_election_id v = eid) (votes d)"

definition totals_match_lists :: "db \<Rightarrow> bool" where
  "totals_match_lists d = list_all (\<lambda>e. total_votes e = list_votes d (e_id e)) (elections d)"

definition totals_match_ballots :: "db \<Rightarrow> bool" where
  "totals_match_ballots d =
     list_all (\<lambda>e. total_votes e = int (length (ballots d (e_id e)))) (elections d)"

text \<open>
  What one entry of a distribution contributes (a value that is no integer never gets
  that far), what a list receives from a distribution, and the lists of one election.
\<close>

definition entry_count :: "jvalue \<Rightarrow> int" where
  "entry_count v = (case cast_int v of Inl e \<Rightarrow> 0 | Inr n \<Rightarrow> coalesce n 0)"

definition increment_of :: "(string \<times> jvalue) list \<Rightarrow> candidate_list \<Rightarrow> int" where
  "increment_of kvs cl = (case map_of kvs (cl_id cl) of None \<Rightarrow> 0 | Some v \<Rightarrow> entry_count v)"

definition lists_of :: "uuid \<Rightarrow> candidate_list list \<Rightarrow> candidate_list list" where
  "lists_of eid cls = filter (\<lambda>cl. cl_election_id cl = eid) cls"

text \<open>
  An operation is well keyed when it is no simulated distribution, or when the keys of its
  distribution are distinct (they are the keys of one JSON object) and each is the
  canonical text of a uuid, as the client's simulator writes them from the ids it read.
\<close>

fun is_simulation :: "operation \<Rightarrow> bool" where
  "is_simulation (ApplySimulatedDistribution s p_election_id p_distribution) = True"
| "is_simulation _ = False"

fun well_keyed :: "operation \<Rightarrow> bool" where
  "well_keyed (ApplySimulatedDistribution s p_election_id (JObject kvs)) =
     (distinct (map fst kvs) \<and> list_all (\<lambda>kv. is_canonical (fst kv)) kvs)"
| "well_keyed _ = True"

section \<open>A small database for concrete runs\<close>

text \<open>
  Two elections, one open with list A and one in draft with list B, one registered voter
  and no ballot yet; and the sessions of that voter, of the same user with the administrator
  role in \<^verbatim>\<open>user_metadata\<close>, and of the same user with a null in that roles array.
\<close>

definition election_1 :: uuid where "election_1 = ''11111111-1111-4111-8111-111111111111''"
definition election_2 :: uuid where "election_2 = ''22222222-2222-4222-8222-222222222222''"
definition list_a :: uuid where "list_a = ''a0eebc99-9c0b-4ef8-bb6d-6bb9bd380a11''"
definition list_b :: uuid where "list_b = ''b0eebc99-9c0b-4ef8-bb6d-6bb9bd380a22''"
definition list_missing :: uuid where "list_missing = ''00000000-0000-4000-8000-000000000000''"
definition user_1 :: uuid where "user_1 = ''c0ffee00-0000-4000-8000-000000000001''"

definition demo_db :: db where
  "demo_db =
     \<lparr>elections = [\<lparr>e_id = election_1, status = voting_open, total_votes = 0\<rparr>,
                   \<lparr>e_id = election_2, status = draft, total_votes = 0\<rparr>],
      candidate_lists = [\<lparr>cl_id = list_a, cl_election_id = election_1, votes_count = 0\<rparr>,
                         \<lparr>cl_id = list_b, cl_election_id = election_2, votes_count = 0\<rparr>],
      votes = [],
      auth_users = [user_1]\<rparr>"

definition voter :: session where
  "voter = \<lparr>uid = Some user_1, app_roles = Absent, user_roles = Absent\<rparr>"

definition self_declared_admin :: session where
  "self_declared_admin =
     \<lparr>uid = Some user_1, app_roles = Absent, user_roles = RoleArray [Some ''administrator'']\<rparr>"

definition null_role_caller :: session where
  "null_role_caller = \<lparr>uid = Some user_1, app_roles = Absent, user_roles = RoleArray [None]\<rparr>"

text \<open>The same user with a roles claim that is a string, not an array.\<close>

definition malformed_role_caller :: session where
  "malformed_role_caller = \<lparr>uid = Some user_1, app_roles = Absent, user_roles = NotArray\<rparr>"

definition first_draws :: draws where
  "first_draws =
     \<lparr>id_draw = ''d0000000-0000-4000-8000-000000000001'',
      receipt_draw = ''f0000000-0000-4000-8000-000000000001'',
      trigger_draw = ''f0000000-0000-4000-8000-000000000002''\<rparr>"

definition second_draws :: draws where
  "second_draws =
     \<lparr>id_draw = ''d0000000-0000-4000-8000-000000000003'',
      receipt_draw = ''f0000000-0000-4000-8000-000000000003'',
      trigger_draw = ''f0000000-0000-4000-8000-000000000004''\<rparr>"

definition first_ballot :: vote where
  "first_ballot =
     \<lparr>v_id = ''d0000000-0000-4000-8000-000000000001'', v_election_id = election_1,
      v_candidate_list_id = list_a, v_user_id = user_1,
      receipt_hash = ''f0000000000040008000000000000001''\<rparr>"

text \<open>
  A row a client writes itself, with the id of the chosen list as its receipt, and the
  database after its insert.
\<close>

definition chosen_receipt_ballot :: vote where
  "chosen_receipt_ballot =
     \<lparr>v_id = ''d0000000-0000-4000-8000-000000000009'', v_election_id = election_1,
      v_candidate_list_id = list_a, v_user_id = user_1, receipt_hash = list_a\<rparr>"

definition chosen_receipt_db :: db where
  "chosen_receipt_db =
     \<lparr>elections = [\<lparr>e_id = election_1, status = voting_open, total_votes = 1\<rparr>,
                   \<lparr>e_id = election_2, status = draft, total_votes = 0\<rparr>],
      candidate_lists = [\<lparr>cl_id = list_a, cl_election_id = election_1, votes_count = 1\<rparr>,
                         \<lparr>cl_id = list_b, cl_election_id = election_2, votes_count = 0\<rparr>],
      votes = [chosen_receipt_ballot],
      auth_users = [user_1]\<rparr>"

text \<open>The database after the voter's ballot for list A.\<close>

definition voted_db :: db where
  "voted_db =
     \<lparr>elections = [\<lparr>e_id = election_1, status = voting_open, total_votes = 1\<rparr>,
                   \<lparr>e_id = election_2, status = draft, total_votes = 0\<rparr>],
      candidate_lists = [\<lparr>cl_id = list_a, cl_election_id = election_1, votes_count = 1\<rparr>,
                         \<lparr>cl_id = list_b, cl_election_id = election_2, votes_count = 0\<rparr>],
      votes = [first_ballot],
      auth_users = [user_1]\<rparr>"

text \<open>
  The demo database after a simulated distribution of 5 votes to list A; after the same
  distribution keyed in upper case; and after a distribution of -3 votes.
\<close>

definition simulated_db :: db where
  "simulated_db =
     \<lparr>elections = [\<lparr>e_id = election_1, status = voting_open, total_votes = 5\<rparr>,
                   \<lparr>e_id = election_2, status = draft, total_votes = 0\<rparr>],
      candidate_lists = [\<lparr>cl_id = list_a, cl_election_id = election_1, votes_count = 5\<rparr>,
                         \<lparr>cl_id = list_b, cl_election_id = election_2, votes_count = 0\<rparr>],
      votes = [],
      auth_users = [user_1]\<rparr>"

definition drifted_db :: db where
  "drifted_db =
     \<lparr>elections = [\<lparr>e_id = election_1, status = voting_open, total_votes = 5\<rparr>,
                   \<lparr>e_id = election_2, status = draft, total_votes = 0\<rparr>],
      candidate_lists = [\<lparr>cl_id = list_a, cl_election_id = election_1, votes_count = 0\<rparr>,
                         \<lparr>cl_id = list_b, cl_election_id = election_2, votes_count = 0\<rparr>],
      votes = [],
      auth_users = [user_1]\<rparr>"



section \<open>Basic facts about the policies and the insert\<close>

lemma any_policy_single: "any_policy [r] = r"
  by (cases r) auto

lemma votes_permitted_Insert: "votes_permitted Insert s d v = votes_insert s d v"
  by (simp add: votes_permitted_def votes_policies_def any_policy_single)

lemma votes_permitted_Update: "votes_permitted Update s d v = Inr False"
  by (simp add: votes_permitted_def votes_policies_def)

lemma votes_permitted_Delete: "votes_permitted Delete s d v = Inr False"
  by (simp add: votes_permitted_def votes_policies_def)

lemma first_error_none: "first_error (map (\<lambda>v. Inr False) vs) = None"
  by (induction vs) auto

lemma is_admin_error: "is_admin s = Inl e \<Longrightarrow> e = CannotExtractElements"
  by (auto simp: is_admin_def jwt_roles_def claim_elements_def
        split: sum.splits roles_claim.splits)

text \<open>
  The insert policy for a caller with a user id and a row that carries it: the error of
  \<^verbatim>\<open>is_admin()\<close> if it raises, and otherwise whether the election is open and the list
  exists.
\<close>

lemma votes_insert_own_row:
  assumes "uid s = Some u" "v_user_id new = u"
  shows "votes_insert s d new =
     (case is_admin s of
        Inl e \<Rightarrow> Inl e
      | Inr a \<Rightarrow>
          Inr ((\<exists>e \<in> set (elections d). e_id e = v_election_id new \<and> status e = voting_open)
               \<and> (\<exists>cl \<in> set (candidate_lists d). cl_id cl = v_candidate_list_id new)))"
  using assms
  by (auto simp: votes_insert_def readable_elections_def readable_candidate_lists_def
        catalog_readable_def auth_role_def list_ex_iff split: sum.splits)

lemma votes_insert_True:
  "votes_insert s d new = Inr True \<Longrightarrow>
     uid s = Some (v_user_id new)
     \<and> (\<exists>a. is_admin s = Inr a)
     \<and> (\<exists>e \<in> set (elections d). e_id e = v_election_id new \<and> status e = voting_open)
     \<and> (\<exists>cl \<in> set (candidate_lists d). cl_id cl = v_candidate_list_id new)"
proof -
  assume a: "votes_insert s d new = Inr True"
  then obtain u where u: "uid s = Some u" "v_user_id new = u"
    by (cases "uid s") (auto simp: votes_insert_def split: if_splits)
  from a votes_insert_own_row[OF u, of d] u show ?thesis
    by (auto split: sum.splits)
qed

lemma votes_insert_open:
  "votes_insert s d new = Inr True \<Longrightarrow>
     \<exists>e \<in> set (elections d). e_id e = v_election_id new \<and> status e = voting_open"
  using votes_insert_True by blast

lemma cast_vote_Inr_insert:
  assumes "cast_vote s g p_election p_list d = Inr (v, d')"
  shows "\<exists>u. uid s = Some u \<and>
           v = \<lparr>v_id = id_draw g, v_election_id = p_election, v_candidate_list_id = p_list,
                 v_user_id = u, receipt_hash = make_receipt (receipt_draw g)\<rparr> \<and>
           insert_vote s (trigger_draw g) v d = Inr d'"
  using assms
  by (auto simp: cast_vote_def Let_def split: option.splits sum.splits pg_error.splits)

lemma insert_vote_Inr_permitted:
  "insert_vote s g new d = Inr d' \<Longrightarrow>
     votes_insert s d new = Inr True \<and> votes_unique_ok new d \<and> votes_fk_ok new d"
  by (auto simp: insert_vote_def votes_permitted_Insert split: if_splits sum.splits)

text \<open>What \<^verbatim>\<open>cast_vote\<close> returns for a caller with a user id, check by check.\<close>

lemma cast_vote_cases:
  assumes "uid s = Some u"
  shows "cast_vote s g p_election p_list d =
     (let v = \<lparr>v_id = id_draw g, v_election_id = p_election, v_candidate_list_id = p_list,
                    v_user_id = u, receipt_hash = make_receipt (receipt_draw g)\<rparr> in
      case is_admin s of
        Inl e \<Rightarrow> Inl e
      | Inr a \<Rightarrow>
          if \<not> ((\<exists>e \<in> set (elections d). e_id e = p_election \<and> status e = voting_open)
                 \<and> (\<exists>cl \<in> set (candidate_lists d). cl_id cl = p_list))
          then Inl RowSecurityViolation
          else if \<not> votes_unique_ok v d then Inl YaExisteVoto
          else if \<not> votes_fk_ok v d then Inl ListaNoValida
          else (case votes_after_insert (trigger_draw g) v (d\<lparr>votes := votes d @ [v]\<rparr>) of
                  Inl UniqueViolation \<Rightarrow> Inl YaExisteVoto
                | Inl ForeignKeyViolation \<Rightarrow> Inl ListaNoValida
                | Inl e \<Rightarrow> Inl e
                | Inr d' \<Rightarrow> Inr (v, d')))"
proof -
  let ?v = "\<lparr>v_id = id_draw g, v_election_id = p_election, v_candidate_list_id = p_list,
                    v_user_id = u, receipt_hash = make_receipt (receipt_draw g)\<rparr>"
  have p: "votes_insert s d ?v =
     (case is_admin s of
        Inl e \<Rightarrow> Inl e
      | Inr a \<Rightarrow>
          Inr ((\<exists>e \<in> set (elections d). e_id e = p_election \<and> status e = voting_open)
               \<and> (\<exists>cl \<in> set (candidate_lists d). cl_id cl = p_list)))"
    using votes_insert_own_row[OF assms, of ?v d] by (simp split: sum.splits)
  show ?thesis
  proof (cases "is_admin s")
    case (Inl e)
    then have "e = CannotExtractElements" by (rule is_admin_error)
    with Inl p assms show ?thesis
      by (simp add: cast_vote_def insert_vote_def votes_permitted_Insert Let_def)
  next
    case (Inr a)
    with p assms show ?thesis
      by (auto simp: cast_vote_def insert_vote_def votes_permitted_Insert Let_def)
  qed
qed

lemma cast_vote_anonymous: "uid s = None \<Longrightarrow> cast_vote s g p_election p_list d = Inl RowSecurityViolation"
  by (simp add: cast_vote_def)


section \<open>The effect of one insert\<close>

lemma update_rows_add_total:
  "update_rows w (add_total n) es = Inr es' \<Longrightarrow>
     es' = map (\<lambda>e. if w e then set_total (total_votes e + n) e else e) es"
  by (induction es arbitrary: es')
     (auto simp: add_total_def add_int4_def split: if_splits sum.splits)

lemma update_rows_add_count:
  "update_rows w (add_count n) cls = Inr cls' \<Longrightarrow>
     cls' = map (\<lambda>cl. if w cl then set_count (votes_count cl + n) cl else cl) cls"
  by (induction cls arbitrary: cls')
     (auto simp: add_count_def add_int4_def split: if_splits sum.splits)

lemma map_other_ids:
  "k \<notin> set (map v_id vs) \<Longrightarrow> map (\<lambda>v. if v_id v = k then f v else v) vs = vs"
  by (induction vs) auto

lemma filter_other_ids:
  "k \<notin> set (map v_id vs) \<Longrightarrow> filter (\<lambda>v. v_id v \<noteq> k) vs = vs"
  by (induction vs) auto

lemma assign_receipt_effect:
  assumes "assign_receipt g new (d\<lparr>votes := votes d @ [new]\<rparr>) = Inr d1"
    and "v_id new \<notin> set (map v_id (votes d))"
    and "receipt_hash new \<notin> set (map receipt_hash (votes d))"
  shows "\<exists>r. d1 = d\<lparr>votes := votes d @ [new\<lparr>receipt_hash := r\<rparr>]\<rparr>
           \<and> r \<notin> set (map receipt_hash (votes d))
           \<and> r = (if receipt_hash new = [] then make_receipt g else receipt_hash new)"
proof (cases "receipt_hash new = []")
  case True
  note f = filter_other_ids[OF assms(2)]
  note m = map_other_ids[OF assms(2), of "\<lambda>v. v\<lparr>receipt_hash := make_receipt g\<rparr>"]
  have "assign_receipt g new (d\<lparr>votes := votes d @ [new]\<rparr>) =
          (if make_receipt g \<in> set (map receipt_hash (votes d)) then Inl UniqueViolation
           else Inr (d\<lparr>votes := votes d @ [new\<lparr>receipt_hash := make_receipt g\<rparr>]\<rparr>))"
    using True by (simp add: assign_receipt_def Let_def f m)
  with assms(1) have "make_receipt g \<notin> set (map receipt_hash (votes d))
      \<and> d1 = d\<lparr>votes := votes d @ [new\<lparr>receipt_hash := make_receipt g\<rparr>]\<rparr>"
    by (simp split: if_splits)
  with True show ?thesis by auto
next
  case False
  with assms have "d1 = d\<lparr>votes := votes d @ [new]\<rparr>"
    by (simp add: assign_receipt_def)
  with False assms(3) show ?thesis by simp
qed

lemma insert_vote_effect:
  assumes "insert_vote s g new d = Inr d'"
  shows "\<exists>r. d' = d\<lparr>votes := votes d @ [new\<lparr>receipt_hash := r\<rparr>],
                   elections := map (\<lambda>e. if e_id e = v_election_id new
                                          then set_total (total_votes e + 1) e else e) (elections d),
                   candidate_lists := map (\<lambda>cl. if cl_id cl = v_candidate_list_id new
                                          then set_count (votes_count cl + 1) cl else cl) (candidate_lists d)\<rparr>
           \<and> r \<notin> set (map receipt_hash (votes d))
           \<and> r = (if receipt_hash new = [] then make_receipt g else receipt_hash new)"
proof -
  from assms have ok: "votes_unique_ok new d"
    and after: "votes_after_insert g new (d\<lparr>votes := votes d @ [new]\<rparr>) = Inr d'"
    by (auto simp: insert_vote_def split: if_splits sum.splits)
  from after obtain d1 es cls where
    d1: "assign_receipt g new (d\<lparr>votes := votes d @ [new]\<rparr>) = Inr d1"
    and es: "update_rows (\<lambda>e. e_id e = v_election_id new) (add_total 1) (elections d1) = Inr es"
    and cls: "update_rows (\<lambda>cl. cl_id cl = v_candidate_list_id new) (add_count 1) (candidate_lists d1) = Inr cls"
    and d': "d' = d1\<lparr>elections := es, candidate_lists := cls\<rparr>"
    by (auto simp: votes_after_insert_def split: sum.splits)
  from ok have fresh: "v_id new \<notin> set (map v_id (votes d))"
    "receipt_hash new \<notin> set (map receipt_hash (votes d))"
    by (auto simp: votes_unique_ok_def)
  from assign_receipt_effect[OF d1 fresh] obtain r where
    r: "d1 = d\<lparr>votes := votes d @ [new\<lparr>receipt_hash := r\<rparr>]\<rparr>"
       "r \<notin> set (map receipt_hash (votes d))"
       "r = (if receipt_hash new = [] then make_receipt g else receipt_hash new)"
    by blast
  from es r(1) have es': "es = map (\<lambda>e. if e_id e = v_election_id new
                                          then set_total (total_votes e + 1) e else e) (elections d)"
    using update_rows_add_total by fastforce
  from cls r(1) have cls': "cls = map (\<lambda>cl. if cl_id cl = v_candidate_list_id new
                                          then set_count (votes_count cl + 1) cl else cl) (candidate_lists d)"
    using update_rows_add_count by fastforce
  from d' r es' cls' show ?thesis by auto
qed

lemma insert_vote_votes:
  assumes "insert_vote s g new d = Inr d'"
  shows "\<exists>r. votes d' = votes d @ [new\<lparr>receipt_hash := r\<rparr>]
           \<and> r \<notin> set (map receipt_hash (votes d))
           \<and> r = (if receipt_hash new = [] then make_receipt g else receipt_hash new)"
  using insert_vote_effect[OF assms] by auto

lemma admin_apply_simulation_votes:
  "admin_apply_simulation s p_election_id p_distribution d = Inr d' \<Longrightarrow> votes d' = votes d"
  by (auto simp: admin_apply_simulation_def split: sum.splits if_splits jsonb.splits)

lemma admin_reset_votes:
  "admin_reset_election_votes s p_election_id d = Inr d' \<Longrightarrow>
     votes d' = filter (\<lambda>v. v_election_id v \<noteq> p_election_id) (votes d)"
  by (auto simp: admin_reset_election_votes_def split: sum.splits)

lemma no_update_policy: "votes_permitted Update s d = (\<lambda>v. Inr False)"
  by (rule ext) (rule votes_permitted_Update)

lemma no_delete_policy: "votes_permitted Delete s d = (\<lambda>v. Inr False)"
  by (rule ext) (rule votes_permitted_Delete)

lemma rest_update_votes_none: "rest_update_votes s w f d = Inr d"
  by (simp add: rest_update_votes_def no_update_policy first_error_none)

lemma rest_delete_votes_none: "rest_delete_votes s w d = Inr d"
  by (simp add: rest_delete_votes_def no_delete_policy first_error_none)

lemma step_votes:
  assumes "\<not> is_reset c"
  shows "votes (step c d) = votes d \<or> (\<exists>v. votes (step c d) = votes d @ [v])"
proof (cases c)
  case (CastVote s g p_election p_list)
  show ?thesis
  proof (cases "cast_vote s g p_election p_list d")
    case (Inl e)
    with CastVote show ?thesis by (simp add: step_def)
  next
    case (Inr r)
    obtain v d' where r: "r = (v, d')" by (cases r)
    with Inr cast_vote_Inr_insert obtain g' where "insert_vote s g' v d = Inr d'" by blast
    from insert_vote_votes[OF this] CastVote Inr r show ?thesis
      by (auto simp: step_def)
  qed
next
  case (InsertVote s g new)
  show ?thesis
  proof (cases "insert_vote s g new d")
    case (Inl e)
    with InsertVote show ?thesis by (simp add: step_def)
  next
    case (Inr d')
    from insert_vote_votes[OF this] InsertVote Inr show ?thesis
      by (auto simp: step_def)
  qed
next
  case (UpdateVotes s w f)
  then show ?thesis by (simp add: step_def rest_update_votes_none)
next
  case (DeleteVotes s w)
  then show ?thesis by (simp add: step_def rest_delete_votes_none)
next
  case (ApplySimulatedDistribution s p_election_id p_distribution)
  then show ?thesis
    by (cases "admin_apply_simulation s p_election_id p_distribution d")
       (auto simp: step_def dest: admin_apply_simulation_votes)
next
  case (ResetElectionVotes s p_election_id)
  with assms show ?thesis by simp
qed

lemma run_votes:
  "list_all (\<lambda>c. \<not> is_reset c) cs \<Longrightarrow> \<exists>vs. votes (run cs d) = votes d @ vs"
proof (induction cs arbitrary: d)
  case Nil
  then show ?case by (simp add: run_def)
next
  case (Cons c cs)
  then have "\<not> is_reset c" "list_all (\<lambda>c. \<not> is_reset c) cs" by auto
  from Cons.IH[OF this(2), of "step c d"] obtain vs where
    vs: "votes (run cs (step c d)) = votes (step c d) @ vs" by blast
  from step_votes[OF \<open>\<not> is_reset c\<close>, of d] vs show ?case
    by (auto simp: run_def)
qed


text \<open>When the counters stay in range, the updates of the trigger go through.\<close>

lemma update_rows_add_total_ok:
  "list_all (\<lambda>e. w e \<longrightarrow> int4_range (total_votes e + n)) es \<Longrightarrow>
     update_rows w (add_total n) es
       = Inr (map (\<lambda>e. if w e then set_total (total_votes e + n) e else e) es)"
  by (induction es) (auto simp: add_total_def add_int4_def)

lemma update_rows_add_count_ok:
  "list_all (\<lambda>cl. w cl \<longrightarrow> int4_range (votes_count cl + n)) cls \<Longrightarrow>
     update_rows w (add_count n) cls
       = Inr (map (\<lambda>cl. if w cl then set_count (votes_count cl + n) cl else cl) cls)"
  by (induction cls) (auto simp: add_count_def add_int4_def)

lemma votes_after_insert_ok:
  assumes "receipt_hash new \<noteq> []"
    and "list_all (\<lambda>e. e_id e = v_election_id new \<longrightarrow> int4_range (total_votes e + 1)) (elections d)"
    and "list_all (\<lambda>cl. cl_id cl = v_candidate_list_id new \<longrightarrow> int4_range (votes_count cl + 1))
           (candidate_lists d)"
  shows "votes_after_insert g new d =
     Inr (d\<lparr>elections := map (\<lambda>e. if e_id e = v_election_id new
                                    then set_total (total_votes e + 1) e else e) (elections d),
            candidate_lists := map (\<lambda>cl. if cl_id cl = v_candidate_list_id new
                                    then set_count (votes_count cl + 1) cl else cl)
                                 (candidate_lists d)\<rparr>)"
  using assms
  by (simp add: votes_after_insert_def assign_receipt_def
        update_rows_add_total_ok update_rows_add_count_ok)


section \<open>Status gating\<close>

lemma checkEligibility_open:
  assumes c: "checkEligibility s p_election d"
  shows "\<exists>e' \<in> set (elections d). e_id e' = p_election \<and> status e' = voting_open"
proof -
  from c obtain es x where es: "readable_elections s d = Inr es"
    and x: "filter (\<lambda>e. e_id e = p_election) es = [x]"
    and open_x: "status x = voting_open"
    by (auto simp: checkEligibility_def split: sum.splits list.splits)
  from es have sub: "set es \<subseteq> set (elections d)"
    by (auto simp: readable_elections_def split: sum.splits if_splits)
  have "x \<in> set (filter (\<lambda>e. e_id e = p_election) es)" by (simp add: x)
  then have "x \<in> set es" "e_id x = p_election" by auto
  with sub open_x show ?thesis by blast
qed

lemma cast_vote_Inr_open:
  assumes "cast_vote s g p_election p_list d = Inr (v, d')"
  shows "\<exists>e' \<in> set (elections d). e_id e' = p_election \<and> status e' = voting_open"
proof -
  from assms obtain u where "insert_vote s (trigger_draw g) v d = Inr d'"
    "v_election_id v = p_election"
    using cast_vote_Inr_insert by fastforce
  then show ?thesis
    using insert_vote_Inr_permitted votes_insert_open by blast
qed

lemma pkey_not_open:
  assumes "elections_pkey d" "e \<in> set (elections d)" "status e \<noteq> voting_open"
  shows "\<not> (\<exists>e' \<in> set (elections d). e_id e' = e_id e \<and> status e' = voting_open)"
proof
  assume "\<exists>e' \<in> set (elections d). e_id e' = e_id e \<and> status e' = voting_open"
  then obtain e' where e': "e' \<in> set (elections d)" "e_id e' = e_id e" "status e' = voting_open"
    by blast
  from assms(1) have "inj_on e_id (set (elections d))"
    by (simp add: elections_pkey_def distinct_map)
  with e' assms(2) have "e' = e" by (auto dest: inj_onD)
  with e' assms(3) show False by simp
qed

text \<open>
  Claim C4, as amended. For an election whose status is draft, scheduled, campaign,
  paused, voting_closed or results_published, every \<^verbatim>\<open>cast_vote\<close> fails and leaves the
  database as it was, and \<^verbatim>\<open>checkEligibility\<close> answers false. The error is the rejection
  by the insert policy (the code's ElectionNotOpen) for a caller without a user id and for
  every caller whose \<^verbatim>\<open>is_admin()\<close> returns; for a caller with a user id whose roles
  claim is not an array, \<^verbatim>\<open>is_admin()\<close> raises while the policy reads the elections and
  the call fails with that error (22023) instead. A cast that succeeds, and an eligibility
  check that answers true, imply that the election's status is voting_open.
\<close>

theorem cast_vote_status_gating:
  "(elections_pkey d \<and> e \<in> set (elections d)
      \<and> status e \<in> {draft, scheduled, campaign, paused, voting_closed, results_published}
    \<longrightarrow> (\<exists>x. cast_vote s g (e_id e) p_list d = Inl x)
        \<and> step (CastVote s g (e_id e) p_list) d = d
        \<and> \<not> checkEligibility s (e_id e) d
        \<and> (uid s = None \<or> is_admin s = Inr a
             \<longrightarrow> cast_vote s g (e_id e) p_list d = Inl RowSecurityViolation)
        \<and> (uid s = Some u \<and> is_admin s = Inl x
             \<longrightarrow> cast_vote s g (e_id e) p_list d = Inl x \<and> x = CannotExtractElements))
   \<and> (cast_vote s g p_election p_list d = Inr (v, d')
    \<longrightarrow> (\<exists>e' \<in> set (elections d). e_id e' = p_election \<and> status e' = voting_open))
   \<and> (checkEligibility s p_election d
    \<longrightarrow> (\<exists>e' \<in> set (elections d). e_id e' = p_election \<and> status e' = voting_open))"
proof (intro conjI impI)
  assume a: "elections_pkey d \<and> e \<in> set (elections d)
      \<and> status e \<in> {draft, scheduled, campaign, paused, voting_closed, results_published}"
  then have closed: "\<not> (\<exists>e' \<in> set (elections d). e_id e' = e_id e \<and> status e' = voting_open)"
    using pkey_not_open[of d e] by auto
  show fails: "\<exists>x. cast_vote s g (e_id e) p_list d = Inl x"
  proof (cases "cast_vote s g (e_id e) p_list d")
    case (Inl x)
    then show ?thesis by blast
  next
    case (Inr r)
    obtain v0 d0 where "r = (v0, d0)" by (cases r)
    with Inr closed cast_vote_Inr_open[of s g "e_id e" p_list d v0 d0] show ?thesis by blast
  qed
  then show "step (CastVote s g (e_id e) p_list) d = d" by (auto simp: step_def)
  from closed show "\<not> checkEligibility s (e_id e) d"
    using checkEligibility_open by blast
  show "cast_vote s g (e_id e) p_list d = Inl RowSecurityViolation"
    if "uid s = None \<or> is_admin s = Inr a"
  proof (cases "uid s")
    case None
    then show ?thesis by (rule cast_vote_anonymous)
  next
    case (Some w)
    with that have "is_admin s = Inr a" by simp
    with Some closed show ?thesis by (simp add: cast_vote_cases Let_def)
  qed
  show "cast_vote s g (e_id e) p_list d = Inl x" "x = CannotExtractElements"
    if "uid s = Some u \<and> is_admin s = Inl x"
    using that is_admin_error[of s x] by (simp_all add: cast_vote_cases Let_def)
next
  assume "cast_vote s g p_election p_list d = Inr (v, d')"
  then show "\<exists>e' \<in> set (elections d). e_id e' = p_election \<and> status e' = voting_open"
    by (rule cast_vote_Inr_open)
next
  assume "checkEligibility s p_election d"
  then show "\<exists>e' \<in> set (elections d). e_id e' = p_election \<and> status e' = voting_open"
    by (rule checkEligibility_open)
qed

theorem cast_vote_status_gating_witness:
  "cast_vote voter first_draws election_2 list_b demo_db = Inl RowSecurityViolation
   \<and> step (CastVote voter first_draws election_2 list_b) demo_db = demo_db
   \<and> \<not> checkEligibility voter election_2 demo_db
   \<and> cast_vote malformed_role_caller first_draws election_2 list_b demo_db
        = Inl CannotExtractElements
   \<and> cast_vote voter first_draws election_1 list_a demo_db = Inr (first_ballot, voted_db)
   \<and> checkEligibility voter election_1 demo_db
   \<and> (\<exists>e' \<in> set (elections demo_db). e_id e' = election_1 \<and> status e' = voting_open)"
proof -
  let ?e = "\<lparr>e_id = election_2, status = draft, total_votes = 0\<rparr>"
  have h1: "elections_pkey demo_db \<and> ?e \<in> set (elections demo_db)
      \<and> status ?e \<in> {draft, scheduled, campaign, paused, voting_closed, results_published}"
    by code_simp
  have h2: "cast_vote voter first_draws election_1 list_a demo_db = Inr (first_ballot, voted_db)"
    by code_simp
  have h3: "checkEligibility voter election_1 demo_db"
    by code_simp
  have h4: "is_admin voter = Inr (Some False)" by code_simp
  have h5: "uid malformed_role_caller = Some user_1
      \<and> is_admin malformed_role_caller = Inl CannotExtractElements" by code_simp
  have h6: "e_id ?e = election_2" by simp
  note refused = cast_vote_status_gating[where d = demo_db and e = ?e and s = voter
      and g = first_draws and p_list = list_b and a = "Some False", unfolded h6]
  note raised = cast_vote_status_gating[where d = demo_db and e = ?e
      and s = malformed_role_caller and g = first_draws and p_list = list_b and u = user_1
      and x = CannotExtractElements, unfolded h6]
  note opened = cast_vote_status_gating[where d = demo_db and s = voter and g = first_draws
      and p_list = list_a and p_election = election_1 and v = first_ballot and d' = voted_db]
  from refused h1 h4 have one: "cast_vote voter first_draws election_2 list_b demo_db
        = Inl RowSecurityViolation
      \<and> step (CastVote voter first_draws election_2 list_b) demo_db = demo_db
      \<and> \<not> checkEligibility voter election_2 demo_db" by blast
  from raised h1 h5 have two: "cast_vote malformed_role_caller first_draws election_2 list_b demo_db
        = Inl CannotExtractElements" by blast
  from opened h2 have three:
    "\<exists>e' \<in> set (elections demo_db). e_id e' = election_1 \<and> status e' = voting_open" by blast
  from one two three h2 h3 show ?thesis by blast
qed

text \<open>
  The claim as stated does not hold: for the authenticated caller whose roles claim is a
  string, a cast in the draft election fails with the error of
  \<^verbatim>\<open>jsonb_array_elements_text\<close>, not with the policy rejection.
\<close>

theorem status_gating_other_error:
  "\<lparr>e_id = election_2, status = draft, total_votes = 0\<rparr> \<in> set (elections demo_db)
   \<and> uid malformed_role_caller = Some user_1
   \<and> jwt_roles malformed_role_caller = Inl CannotExtractElements
   \<and> cast_vote malformed_role_caller first_draws election_2 list_b demo_db
        = Inl CannotExtractElements
   \<and> cast_vote malformed_role_caller first_draws election_2 list_b demo_db
        \<noteq> Inl RowSecurityViolation"
  by code_simp


section \<open>Uniqueness constraints along runs\<close>

lemma is_xdigit_not_hyphen: "is_xdigit c \<Longrightarrow> c \<noteq> CHR ''-''"
  by (auto simp: is_xdigit_def)

lemma uuid_bytes_Suc_head:
  "uuid_bytes (Suc n) src = Some x \<Longrightarrow> \<exists>a rest. src = a # rest \<and> is_xdigit a"
  by (cases "(Suc n, src)" rule: uuid_bytes.cases) (auto split: if_splits)

lemma make_receipt_nonempty:
  assumes "is_canonical g"
  shows "make_receipt g \<noteq> []"
proof (cases "take 1 g = ''{''")
  case True
  then have "CHR ''{'' \<in> set g" by (cases g) auto
  then show ?thesis by (auto simp: make_receipt_def filter_empty_conv)
next
  case False
  with assms obtain x where "uuid_bytes 16 g = Some x"
    by (auto simp: is_canonical_def uuid_in_def Let_def split: option.splits)
  then have "uuid_bytes (Suc 15) g = Some x" by simp
  then obtain a rest where "g = a # rest" "is_xdigit a"
    using uuid_bytes_Suc_head by blast
  then show ?thesis
    by (auto simp: make_receipt_def dest: is_xdigit_not_hyphen)
qed

lemma step_one_vote:
  assumes "one_vote_per_user_per_election d"
  shows "one_vote_per_user_per_election (step c d)"
proof (cases "perform c d")
  case (Inl e)
  with assms show ?thesis by (simp add: step_def)
next
  case (Inr d')
  have "one_vote_per_user_per_election d'"
  proof (cases c)
    case (CastVote s g p_election p_list)
    with Inr obtain v where "cast_vote s g p_election p_list d = Inr (v, d')"
      by (auto split: sum.splits)
    with cast_vote_Inr_insert obtain g' where i: "insert_vote s g' v d = Inr d'" by blast
    from insert_vote_votes[OF i] insert_vote_Inr_permitted[OF i] assms show ?thesis
      by (auto simp: one_vote_per_user_per_election_def votes_unique_ok_def)
  next
    case (InsertVote s g new)
    with Inr have i: "insert_vote s g new d = Inr d'" by simp
    from insert_vote_votes[OF i] insert_vote_Inr_permitted[OF i] assms show ?thesis
      by (auto simp: one_vote_per_user_per_election_def votes_unique_ok_def)
  next
    case (UpdateVotes s w f)
    with Inr assms show ?thesis by (simp add: rest_update_votes_none)
  next
    case (DeleteVotes s w)
    with Inr assms show ?thesis by (simp add: rest_delete_votes_none)
  next
    case (ApplySimulatedDistribution s p_election_id p_distribution)
    with Inr assms admin_apply_simulation_votes show ?thesis
      by (fastforce simp: one_vote_per_user_per_election_def)
  next
    case (ResetElectionVotes s p_election_id)
    with Inr assms admin_reset_votes[of s p_election_id d d'] show ?thesis
      by (simp add: one_vote_per_user_per_election_def distinct_map_filter)
  qed
  with Inr show ?thesis by (simp add: step_def)
qed

lemma run_one_vote:
  "one_vote_per_user_per_election d \<Longrightarrow> one_vote_per_user_per_election (run cs d)"
  by (induction cs arbitrary: d) (auto simp: run_def step_one_vote)

lemma step_receipts:
  assumes "votes_receipt_hash_idx d"
  shows "votes_receipt_hash_idx (step c d)"
proof (cases "perform c d")
  case (Inl e)
  with assms show ?thesis by (simp add: step_def)
next
  case (Inr d')
  have "votes_receipt_hash_idx d'"
  proof (cases c)
    case (CastVote s g p_election p_list)
    with Inr obtain v where "cast_vote s g p_election p_list d = Inr (v, d')"
      by (auto split: sum.splits)
    with cast_vote_Inr_insert obtain g' where i: "insert_vote s g' v d = Inr d'" by blast
    from insert_vote_votes[OF i] assms show ?thesis
      by (auto simp: votes_receipt_hash_idx_def)
  next
    case (InsertVote s g new)
    with Inr have i: "insert_vote s g new d = Inr d'" by simp
    from insert_vote_votes[OF i] assms show ?thesis
      by (auto simp: votes_receipt_hash_idx_def)
  next
    case (UpdateVotes s w f)
    with Inr assms show ?thesis by (simp add: rest_update_votes_none)
  next
    case (DeleteVotes s w)
    with Inr assms show ?thesis by (simp add: rest_delete_votes_none)
  next
    case (ApplySimulatedDistribution s p_election_id p_distribution)
    with Inr assms admin_apply_simulation_votes show ?thesis
      by (fastforce simp: votes_receipt_hash_idx_def)
  next
    case (ResetElectionVotes s p_election_id)
    with Inr assms admin_reset_votes[of s p_election_id d d'] show ?thesis
      by (simp add: votes_receipt_hash_idx_def distinct_map_filter)
  qed
  with Inr show ?thesis by (simp add: step_def)
qed

lemma run_receipts:
  "votes_receipt_hash_idx d \<Longrightarrow> votes_receipt_hash_idx (run cs d)"
  by (induction cs arbitrary: d) (auto simp: run_def step_receipts)

lemma pkey_pair_absent:
  assumes "candidate_lists_pkey d" "cl \<in> set (candidate_lists d)" "cl_election_id cl \<noteq> p_election"
  shows "(cl_id cl, p_election) \<notin> set (map (\<lambda>c. (cl_id c, cl_election_id c)) (candidate_lists d))"
proof
  assume "(cl_id cl, p_election) \<in> set (map (\<lambda>c. (cl_id c, cl_election_id c)) (candidate_lists d))"
  then obtain c where c: "c \<in> set (candidate_lists d)" "cl_id c = cl_id cl" "cl_election_id c = p_election"
    by auto
  from assms(1) have "inj_on cl_id (set (candidate_lists d))"
    by (simp add: candidate_lists_pkey_def distinct_map)
  with c assms(2) have "c = cl" by (auto dest: inj_onD)
  with c assms(3) show False by simp
qed

text \<open>\<^verbatim>\<open>cast_vote\<close> check by check, in terms of the row it inserts.\<close>

lemma cast_vote_ballot_of:
  assumes "uid s = Some u"
  shows "cast_vote s g p_election p_list d =
     (case is_admin s of
        Inl e \<Rightarrow> Inl e
      | Inr a \<Rightarrow>
          if \<not> ((\<exists>e \<in> set (elections d). e_id e = p_election \<and> status e = voting_open)
                 \<and> (\<exists>cl \<in> set (candidate_lists d). cl_id cl = p_list))
          then Inl RowSecurityViolation
          else if \<not> votes_unique_ok (ballot_of u g p_election p_list) d then Inl YaExisteVoto
          else if \<not> votes_fk_ok (ballot_of u g p_election p_list) d then Inl ListaNoValida
          else (case votes_after_insert (trigger_draw g) (ballot_of u g p_election p_list)
                       (d\<lparr>votes := votes d @ [ballot_of u g p_election p_list]\<rparr>) of
                  Inl UniqueViolation \<Rightarrow> Inl YaExisteVoto
                | Inl ForeignKeyViolation \<Rightarrow> Inl ListaNoValida
                | Inl e \<Rightarrow> Inl e
                | Inr d' \<Rightarrow> Inr (ballot_of u g p_election p_list, d')))"
  unfolding ballot_of_def cast_vote_cases[OF assms] Let_def ..

section \<open>One ballot per voter and election\<close>

text \<open>
  Claim C1, as amended. The unique constraint on \<^verbatim>\<open>(user_id, election_id)\<close> is an
  invariant of every run, whatever the operations and their arguments: no two ballot rows
  share a voter and an election. A cast by a voter who already has a ballot in the election
  always fails and leaves the database, and so the first ballot, as it was. When
  \<^verbatim>\<open>is_admin()\<close> returns for the caller, the cast fails with \<^verbatim>\<open>YaExisteVoto\<close> (the
  code's AlreadyVoted) if the election is still voting_open and the list id names an
  existing list, and with the rejection by the insert policy otherwise; when
  \<^verbatim>\<open>is_admin()\<close> raises (a roles claim that is not an array), the cast fails with that
  error.
\<close>

theorem one_ballot_per_voter_and_election:
  "(one_vote_per_user_per_election d \<longrightarrow> one_vote_per_user_per_election (run cs d))
   \<and> (uid s = Some u
       \<and> (u, p_election) \<in> set (map (\<lambda>v. (v_user_id v, v_election_id v)) (votes d))
      \<longrightarrow> (\<exists>x. cast_vote s g p_election p_list d = Inl x)
          \<and> step (CastVote s g p_election p_list) d = d
          \<and> (is_admin s = Inr a
               \<and> (\<exists>e \<in> set (elections d). e_id e = p_election \<and> status e = voting_open)
               \<and> (\<exists>cl \<in> set (candidate_lists d). cl_id cl = p_list)
              \<longrightarrow> cast_vote s g p_election p_list d = Inl YaExisteVoto)
          \<and> (is_admin s = Inr a
               \<and> \<not> ((\<exists>e \<in> set (elections d). e_id e = p_election \<and> status e = voting_open)
                     \<and> (\<exists>cl \<in> set (candidate_lists d). cl_id cl = p_list))
              \<longrightarrow> cast_vote s g p_election p_list d = Inl RowSecurityViolation)
          \<and> (is_admin s = Inl x \<longrightarrow> cast_vote s g p_election p_list d = Inl x))"
proof (intro conjI impI)
  assume "one_vote_per_user_per_election d"
  then show "one_vote_per_user_per_election (run cs d)" by (rule run_one_vote)
next
  assume a: "uid s = Some u
       \<and> (u, p_election) \<in> set (map (\<lambda>v. (v_user_id v, v_election_id v)) (votes d))"
  then have nu: "\<not> votes_unique_ok (ballot_of u g p_election p_list) d"
    by (auto simp: votes_unique_ok_def ballot_of_def)
  from a have u: "uid s = Some u" by simp
  note c = cast_vote_ballot_of[OF u, of g p_election p_list d]
  show f: "\<exists>x. cast_vote s g p_election p_list d = Inl x"
    using nu by (subst c) (simp split: sum.splits)
  then show "step (CastVote s g p_election p_list) d = d" by (auto simp: step_def)
  show "cast_vote s g p_election p_list d = Inl YaExisteVoto"
    if "is_admin s = Inr a
               \<and> (\<exists>e \<in> set (elections d). e_id e = p_election \<and> status e = voting_open)
               \<and> (\<exists>cl \<in> set (candidate_lists d). cl_id cl = p_list)"
    using that nu by (subst c) simp
  show "cast_vote s g p_election p_list d = Inl RowSecurityViolation"
    if "is_admin s = Inr a
               \<and> \<not> ((\<exists>e \<in> set (elections d). e_id e = p_election \<and> status e = voting_open)
                     \<and> (\<exists>cl \<in> set (candidate_lists d). cl_id cl = p_list))"
    using that by (subst c) simp
  show "cast_vote s g p_election p_list d = Inl x" if "is_admin s = Inl x"
    using that by (subst c) simp
qed

theorem one_ballot_per_voter_and_election_witness:
  "run [CastVote voter first_draws election_1 list_a] demo_db = voted_db
   \<and> votes voted_db = [first_ballot]
   \<and> one_vote_per_user_per_election
       (run [CastVote voter first_draws election_1 list_a,
             CastVote voter second_draws election_1 list_a] demo_db)
   \<and> cast_vote voter second_draws election_1 list_a voted_db = Inl YaExisteVoto
   \<and> step (CastVote voter second_draws election_1 list_a) voted_db = voted_db
   \<and> cast_vote voter second_draws election_1 list_missing voted_db = Inl RowSecurityViolation
   \<and> cast_vote malformed_role_caller second_draws election_1 list_a voted_db
        = Inl CannotExtractElements"
proof -
  have h0: "run [CastVote voter first_draws election_1 list_a] demo_db = voted_db
      \<and> votes voted_db = [first_ballot]" by code_simp
  have h1: "one_vote_per_user_per_election demo_db" by code_simp
  have h2: "uid voter = Some user_1
       \<and> (user_1, election_1) \<in> set (map (\<lambda>v. (v_user_id v, v_election_id v)) (votes voted_db))"
    by code_simp
  have h3: "is_admin voter = Inr (Some False)
       \<and> (\<exists>e \<in> set (elections voted_db). e_id e = election_1 \<and> status e = voting_open)
       \<and> (\<exists>cl \<in> set (candidate_lists voted_db). cl_id cl = list_a)"
    by code_simp
  have h4: "is_admin voter = Inr (Some False)
       \<and> \<not> ((\<exists>e \<in> set (elections voted_db). e_id e = election_1 \<and> status e = voting_open)
             \<and> (\<exists>cl \<in> set (candidate_lists voted_db). cl_id cl = list_missing))"
    by code_simp
  have h5: "uid malformed_role_caller = Some user_1
       \<and> is_admin malformed_role_caller = Inl CannotExtractElements" by code_simp
  note inv = one_ballot_per_voter_and_election[where d = demo_db
      and cs = "[CastVote voter first_draws election_1 list_a,
                 CastVote voter second_draws election_1 list_a]"]
  note again = one_ballot_per_voter_and_election[where d = voted_db and s = voter and u = user_1
      and p_election = election_1 and p_list = list_a and g = second_draws and a = "Some False"]
  note refused = one_ballot_per_voter_and_election[where d = voted_db and s = voter
      and u = user_1 and p_election = election_1 and p_list = list_missing and g = second_draws
      and a = "Some False"]
  note raised = one_ballot_per_voter_and_election[where d = voted_db
      and s = malformed_role_caller and u = user_1 and p_election = election_1
      and p_list = list_a and g = second_draws and x = CannotExtractElements]
  from inv h1 have one: "one_vote_per_user_per_election
       (run [CastVote voter first_draws election_1 list_a,
             CastVote voter second_draws election_1 list_a] demo_db)" by blast
  from again h2 h3 have two: "cast_vote voter second_draws election_1 list_a voted_db
        = Inl YaExisteVoto
      \<and> step (CastVote voter second_draws election_1 list_a) voted_db = voted_db" by blast
  from refused h2 h4 have three:
    "cast_vote voter second_draws election_1 list_missing voted_db = Inl RowSecurityViolation"
    by blast
  from raised h2 h5 have four:
    "cast_vote malformed_role_caller second_draws election_1 list_a voted_db
        = Inl CannotExtractElements" by blast
  from h0 one two three four show ?thesis by blast
qed

text \<open>
  The claim as stated does not hold: after the voter's first ballot, a second cast that
  names a list id that does not exist is refused by the policy, not with
  \<^verbatim>\<open>YaExisteVoto\<close>.
\<close>

theorem second_cast_policy_rejection:
  "run [CastVote voter first_draws election_1 list_a] demo_db = voted_db
   \<and> uid voter = Some (v_user_id first_ballot)
   \<and> v_election_id first_ballot = election_1
   \<and> votes voted_db = [first_ballot]
   \<and> cast_vote voter second_draws election_1 list_missing voted_db = Inl RowSecurityViolation
   \<and> cast_vote voter second_draws election_1 list_missing voted_db \<noteq> Inl YaExisteVoto"
  by code_simp

section \<open>Pairing of list and election\<close>

text \<open>
  Claim C3, as amended. A cast that names a list of another election always fails and
  leaves the database as it was. The error is that of the first check that fails, in the
  order the database works: the rejection by the insert policy for a caller without a user
  id; the error of \<^verbatim>\<open>is_admin()\<close> when it raises for the caller; the rejection by the
  policy when the election named is not voting_open (the policy does not compare the
  list's election with the row's); \<^verbatim>\<open>YaExisteVoto\<close> when the new row breaks a unique
  index, that is when the caller already has a ballot in the election or the id or the
  receipt drawn for the row is already in the table; and in every other case
  \<^verbatim>\<open>ListaNoValida\<close> (the code's InvalidList), from the composite foreign key.
\<close>

theorem mismatched_list_is_refused:
  "candidate_lists_pkey d \<and> cl \<in> set (candidate_lists d) \<and> cl_election_id cl \<noteq> p_election
   \<longrightarrow> (\<exists>x. cast_vote s g p_election (cl_id cl) d = Inl x)
       \<and> step (CastVote s g p_election (cl_id cl)) d = d
       \<and> (uid s = None \<longrightarrow> cast_vote s g p_election (cl_id cl) d = Inl RowSecurityViolation)
       \<and> (uid s = Some u \<and> is_admin s = Inl x
            \<longrightarrow> cast_vote s g p_election (cl_id cl) d = Inl x)
       \<and> (uid s = Some u \<and> is_admin s = Inr a
            \<and> \<not> (\<exists>e \<in> set (elections d). e_id e = p_election \<and> status e = voting_open)
            \<longrightarrow> cast_vote s g p_election (cl_id cl) d = Inl RowSecurityViolation)
       \<and> (uid s = Some u \<and> is_admin s = Inr a
            \<and> (\<exists>e \<in> set (elections d). e_id e = p_election \<and> status e = voting_open)
            \<and> \<not> votes_unique_ok (ballot_of u g p_election (cl_id cl)) d
            \<longrightarrow> cast_vote s g p_election (cl_id cl) d = Inl YaExisteVoto)
       \<and> (uid s = Some u \<and> is_admin s = Inr a
            \<and> (\<exists>e \<in> set (elections d). e_id e = p_election \<and> status e = voting_open)
            \<and> votes_unique_ok (ballot_of u g p_election (cl_id cl)) d
            \<longrightarrow> cast_vote s g p_election (cl_id cl) d = Inl ListaNoValida)"
proof (intro impI)
  assume a: "candidate_lists_pkey d \<and> cl \<in> set (candidate_lists d) \<and> cl_election_id cl \<noteq> p_election"
  then have absent: "(cl_id cl, p_election)
      \<notin> set (map (\<lambda>c. (cl_id c, cl_election_id c)) (candidate_lists d))"
    using pkey_pair_absent by blast
  from a have listed: "\<exists>c \<in> set (candidate_lists d). cl_id c = cl_id cl" by blast
  have nfk: "\<not> votes_fk_ok (ballot_of w g p_election (cl_id cl)) d" for w
    using absent by (simp add: votes_fk_ok_def ballot_of_def)
  have fails: "\<exists>x. cast_vote s g p_election (cl_id cl) d = Inl x"
  proof (cases "uid s")
    case None
    then show ?thesis by (simp add: cast_vote_anonymous)
  next
    case (Some w)
    show ?thesis
      using nfk[of w] by (subst cast_vote_ballot_of[OF Some]) (simp split: sum.splits)
  qed
  have anonymous: "cast_vote s g p_election (cl_id cl) d = Inl RowSecurityViolation"
    if "uid s = None"
    using that by (rule cast_vote_anonymous)
  have raised: "cast_vote s g p_election (cl_id cl) d = Inl x"
    if "uid s = Some u \<and> is_admin s = Inl x"
    using that by (simp add: cast_vote_ballot_of)
  have closed: "cast_vote s g p_election (cl_id cl) d = Inl RowSecurityViolation"
    if "uid s = Some u \<and> is_admin s = Inr a
            \<and> \<not> (\<exists>e \<in> set (elections d). e_id e = p_election \<and> status e = voting_open)"
    using that by (simp add: cast_vote_ballot_of)
  have voted: "cast_vote s g p_election (cl_id cl) d = Inl YaExisteVoto"
    if "uid s = Some u \<and> is_admin s = Inr a
            \<and> (\<exists>e \<in> set (elections d). e_id e = p_election \<and> status e = voting_open)
            \<and> \<not> votes_unique_ok (ballot_of u g p_election (cl_id cl)) d"
    using that listed by (simp add: cast_vote_ballot_of)
  have invalid: "cast_vote s g p_election (cl_id cl) d = Inl ListaNoValida"
    if "uid s = Some u \<and> is_admin s = Inr a
            \<and> (\<exists>e \<in> set (elections d). e_id e = p_election \<and> status e = voting_open)
            \<and> votes_unique_ok (ballot_of u g p_election (cl_id cl)) d"
    using that listed nfk[of u] by (simp add: cast_vote_ballot_of)
  from fails have unchanged: "step (CastVote s g p_election (cl_id cl)) d = d"
    by (auto simp: step_def)
  from fails unchanged anonymous raised closed voted invalid
  show "(\<exists>x. cast_vote s g p_election (cl_id cl) d = Inl x)
       \<and> step (CastVote s g p_election (cl_id cl)) d = d
       \<and> (uid s = None \<longrightarrow> cast_vote s g p_election (cl_id cl) d = Inl RowSecurityViolation)
       \<and> (uid s = Some u \<and> is_admin s = Inl x
            \<longrightarrow> cast_vote s g p_election (cl_id cl) d = Inl x)
       \<and> (uid s = Some u \<and> is_admin s = Inr a
            \<and> \<not> (\<exists>e \<in> set (elections d). e_id e = p_election \<and> status e = voting_open)
            \<longrightarrow> cast_vote s g p_election (cl_id cl) d = Inl RowSecurityViolation)
       \<and> (uid s = Some u \<and> is_admin s = Inr a
            \<and> (\<exists>e \<in> set (elections d). e_id e = p_election \<and> status e = voting_open)
            \<and> \<not> votes_unique_ok (ballot_of u g p_election (cl_id cl)) d
            \<longrightarrow> cast_vote s g p_election (cl_id cl) d = Inl YaExisteVoto)
       \<and> (uid s = Some u \<and> is_admin s = Inr a
            \<and> (\<exists>e \<in> set (elections d). e_id e = p_election \<and> status e = voting_open)
            \<and> votes_unique_ok (ballot_of u g p_election (cl_id cl)) d
            \<longrightarrow> cast_vote s g p_election (cl_id cl) d = Inl ListaNoValida)"
    by blast
qed

theorem mismatched_list_is_refused_witness:
  "cast_vote voter first_draws election_1 list_b demo_db = Inl ListaNoValida
   \<and> step (CastVote voter first_draws election_1 list_b) demo_db = demo_db
   \<and> cast_vote voter second_draws election_1 list_b voted_db = Inl YaExisteVoto
   \<and> cast_vote voter first_draws election_2 list_a demo_db = Inl RowSecurityViolation
   \<and> cast_vote malformed_role_caller first_draws election_1 list_b demo_db
        = Inl CannotExtractElements
   \<and> cast_vote voter first_draws election_1 list_a demo_db = Inr (first_ballot, voted_db)"
proof -
  let ?b = "\<lparr>cl_id = list_b, cl_election_id = election_2, votes_count = 0\<rparr>"
  let ?a = "\<lparr>cl_id = list_a, cl_election_id = election_1, votes_count = 0\<rparr>"
  have b1: "candidate_lists_pkey demo_db \<and> ?b \<in> set (candidate_lists demo_db)
      \<and> cl_election_id ?b \<noteq> election_1" by code_simp
  have b2: "candidate_lists_pkey voted_db \<and> ?b \<in> set (candidate_lists voted_db)
      \<and> cl_election_id ?b \<noteq> election_1" by code_simp
  have a1: "candidate_lists_pkey demo_db \<and> ?a \<in> set (candidate_lists demo_db)
      \<and> cl_election_id ?a \<noteq> election_2" by code_simp
  have h2: "uid voter = Some user_1 \<and> is_admin voter = Inr (Some False)
            \<and> (\<exists>e \<in> set (elections demo_db). e_id e = election_1 \<and> status e = voting_open)
            \<and> votes_unique_ok (ballot_of user_1 first_draws election_1 (cl_id ?b)) demo_db"
    by code_simp
  have h3: "uid voter = Some user_1 \<and> is_admin voter = Inr (Some False)
            \<and> (\<exists>e \<in> set (elections voted_db). e_id e = election_1 \<and> status e = voting_open)
            \<and> \<not> votes_unique_ok (ballot_of user_1 second_draws election_1 (cl_id ?b)) voted_db"
    by code_simp
  have h4: "uid voter = Some user_1 \<and> is_admin voter = Inr (Some False)
            \<and> \<not> (\<exists>e \<in> set (elections demo_db). e_id e = election_2 \<and> status e = voting_open)"
    by code_simp
  have h5: "uid malformed_role_caller = Some user_1
            \<and> is_admin malformed_role_caller = Inl CannotExtractElements" by code_simp
  have h6: "cast_vote voter first_draws election_1 list_a demo_db = Inr (first_ballot, voted_db)"
    by code_simp
  have ids: "cl_id ?b = list_b" "cl_id ?a = list_a" by simp_all
  from mismatched_list_is_refused[where d = demo_db and cl = ?b and p_election = election_1
      and s = voter and g = first_draws and u = user_1 and a = "Some False"] b1 h2
  have one: "cast_vote voter first_draws election_1 list_b demo_db = Inl ListaNoValida
      \<and> step (CastVote voter first_draws election_1 list_b) demo_db = demo_db"
    unfolding ids by blast
  from mismatched_list_is_refused[where d = voted_db and cl = ?b and p_election = election_1
      and s = voter and g = second_draws and u = user_1 and a = "Some False"] b2 h3
  have two: "cast_vote voter second_draws election_1 list_b voted_db = Inl YaExisteVoto"
    unfolding ids by blast
  from mismatched_list_is_refused[where d = demo_db and cl = ?a and p_election = election_2
      and s = voter and g = first_draws and u = user_1 and a = "Some False"] a1 h4
  have three: "cast_vote voter first_draws election_2 list_a demo_db = Inl RowSecurityViolation"
    unfolding ids by blast
  from mismatched_list_is_refused[where d = demo_db and cl = ?b and p_election = election_1
      and s = malformed_role_caller and g = first_draws and u = user_1
      and x = CannotExtractElements] b1 h5
  have four: "cast_vote malformed_role_caller first_draws election_1 list_b demo_db
        = Inl CannotExtractElements"
    unfolding ids by blast
  from one two three four h6 show ?thesis by blast
qed

text \<open>
  The claim as stated does not hold: the checks that come before the foreign key answer
  first. A list of election 1 cast under election 2, which is in draft, is refused by the
  policy; a list of election 2 cast under election 1 by a voter who already voted there
  fails with \<^verbatim>\<open>YaExisteVoto\<close>.
\<close>

theorem mismatched_list_other_errors:
  "\<lparr>cl_id = list_a, cl_election_id = election_1, votes_count = 0\<rparr> \<in> set (candidate_lists demo_db)
   \<and> election_1 \<noteq> election_2
   \<and> cast_vote voter first_draws election_2 list_a demo_db = Inl RowSecurityViolation
   \<and> \<lparr>cl_id = list_b, cl_election_id = election_2, votes_count = 0\<rparr> \<in> set (candidate_lists voted_db)
   \<and> cast_vote voter second_draws election_1 list_b voted_db = Inl YaExisteVoto"
  by code_simp


section \<open>Receipts\<close>

text \<open>
  A cast goes through when the caller has a user id, \<^verbatim>\<open>is_admin()\<close> returns, the
  election is open, the new row passes the unique indexes and the foreign keys, the uuid
  drawn for the receipt is a uuid, and the counters stay in the range of \<^verbatim>\<open>int\<close>.
\<close>

lemma cast_vote_succeeds:
  assumes u: "uid s = Some u" and a: "is_admin s = Inr a"
    and e: "\<exists>e \<in> set (elections d). e_id e = p_election \<and> status e = voting_open"
    and q: "votes_unique_ok (ballot_of u g p_election p_list) d"
    and k: "votes_fk_ok (ballot_of u g p_election p_list) d"
    and r: "is_canonical (receipt_draw g)"
    and t: "list_all (\<lambda>e. e_id e = p_election \<longrightarrow> int4_range (total_votes e + 1)) (elections d)"
    and c: "list_all (\<lambda>cl. cl_id cl = p_list \<longrightarrow> int4_range (votes_count cl + 1))
              (candidate_lists d)"
  shows "cast_vote s g p_election p_list d =
     Inr (ballot_of u g p_election p_list,
          d\<lparr>votes := votes d @ [ballot_of u g p_election p_list],
            elections := map (\<lambda>e. if e_id e = p_election
                                    then set_total (total_votes e + 1) e else e) (elections d),
            candidate_lists := map (\<lambda>cl. if cl_id cl = p_list
                                    then set_count (votes_count cl + 1) cl else cl)
                                 (candidate_lists d)\<rparr>)"
proof -
  let ?b = "ballot_of u g p_election p_list"
  from k have listed: "\<exists>cl \<in> set (candidate_lists d). cl_id cl = p_list"
    by (auto simp: votes_fk_ok_def ballot_of_def)
  from r have n: "receipt_hash ?b \<noteq> []"
    by (simp add: ballot_of_def make_receipt_nonempty)
  have f: "v_election_id ?b = p_election" "v_candidate_list_id ?b = p_list"
    by (simp_all add: ballot_of_def)
  have "votes_after_insert (trigger_draw g) ?b (d\<lparr>votes := votes d @ [?b]\<rparr>) =
     Inr (d\<lparr>votes := votes d @ [?b],
            elections := map (\<lambda>e. if e_id e = p_election
                                    then set_total (total_votes e + 1) e else e) (elections d),
            candidate_lists := map (\<lambda>cl. if cl_id cl = p_list
                                    then set_count (votes_count cl + 1) cl else cl)
                                 (candidate_lists d)\<rparr>)"
    using votes_after_insert_ok[of ?b "d\<lparr>votes := votes d @ [?b]\<rparr>" "trigger_draw g"] n t c
    by (simp add: f)
  with a e listed q k show ?thesis
    by (simp add: cast_vote_ballot_of[OF u])
qed

text \<open>
  Claim C7, as amended. The unique index on \<^verbatim>\<open>receipt_hash\<close> is an invariant of every
  run, whatever the random draws are and whatever rows are inserted: receipts are pairwise
  distinct. A cast with \<^verbatim>\<open>cast_vote\<close> that passes every check stores and returns one
  row whose receipt is \<^verbatim>\<open>make_receipt\<close> of the random uuid drawn for it; every
  successful cast does, and two casts with the same draw get the same receipt whatever the
  caller, the election, the list and the database: the receipt of a cast is a function of
  the draw alone. A row inserted through the table interface keeps the receipt its client
  supplied; the trigger draws one only when the receipt is empty.
\<close>

theorem receipts_unique_and_random:
  "(votes_receipt_hash_idx d \<longrightarrow> votes_receipt_hash_idx (run cs d))
   \<and> (uid s = Some u \<and> is_admin s = Inr a
       \<and> (\<exists>e \<in> set (elections d). e_id e = p_election \<and> status e = voting_open)
       \<and> votes_unique_ok (ballot_of u g p_election p_list) d
       \<and> votes_fk_ok (ballot_of u g p_election p_list) d
       \<and> is_canonical (receipt_draw g)
       \<and> list_all (\<lambda>e. e_id e = p_election \<longrightarrow> int4_range (total_votes e + 1)) (elections d)
       \<and> list_all (\<lambda>cl. cl_id cl = p_list \<longrightarrow> int4_range (votes_count cl + 1))
            (candidate_lists d)
      \<longrightarrow> (\<exists>d1. cast_vote s g p_election p_list d = Inr (ballot_of u g p_election p_list, d1)
                 \<and> votes d1 = votes d @ [ballot_of u g p_election p_list])
          \<and> receipt_hash (ballot_of u g p_election p_list) = make_receipt (receipt_draw g))
   \<and> (is_canonical (receipt_draw g) \<and> cast_vote s g p_election p_list d = Inr (v, d')
      \<longrightarrow> receipt_hash v = make_receipt (receipt_draw g) \<and> votes d' = votes d @ [v])
   \<and> (cast_vote s g p_election p_list d = Inr (v, d')
       \<and> cast_vote s2 g p_election2 p_list2 d2 = Inr (v2, d2')
      \<longrightarrow> receipt_hash v = receipt_hash v2)
   \<and> (insert_vote s k new d = Inr d3
      \<longrightarrow> votes d3 = votes d @ [new\<lparr>receipt_hash :=
                                    if receipt_hash new = [] then make_receipt k
                                    else receipt_hash new\<rparr>])"
proof (intro conjI impI)
  assume "votes_receipt_hash_idx d"
  then show "votes_receipt_hash_idx (run cs d)" by (rule run_receipts)
next
  assume h: "uid s = Some u \<and> is_admin s = Inr a
       \<and> (\<exists>e \<in> set (elections d). e_id e = p_election \<and> status e = voting_open)
       \<and> votes_unique_ok (ballot_of u g p_election p_list) d
       \<and> votes_fk_ok (ballot_of u g p_election p_list) d
       \<and> is_canonical (receipt_draw g)
       \<and> list_all (\<lambda>e. e_id e = p_election \<longrightarrow> int4_range (total_votes e + 1)) (elections d)
       \<and> list_all (\<lambda>cl. cl_id cl = p_list \<longrightarrow> int4_range (votes_count cl + 1))
            (candidate_lists d)"
  then have "cast_vote s g p_election p_list d =
     Inr (ballot_of u g p_election p_list,
          d\<lparr>votes := votes d @ [ballot_of u g p_election p_list],
            elections := map (\<lambda>e. if e_id e = p_election
                                    then set_total (total_votes e + 1) e else e) (elections d),
            candidate_lists := map (\<lambda>cl. if cl_id cl = p_list
                                    then set_count (votes_count cl + 1) cl else cl)
                                 (candidate_lists d)\<rparr>)"
    by (intro cast_vote_succeeds) simp_all
  then show "\<exists>d1. cast_vote s g p_election p_list d = Inr (ballot_of u g p_election p_list, d1)
                 \<and> votes d1 = votes d @ [ballot_of u g p_election p_list]"
    by simp
  show "receipt_hash (ballot_of u g p_election p_list) = make_receipt (receipt_draw g)"
    by (simp add: ballot_of_def)
next
  assume a: "is_canonical (receipt_draw g) \<and> cast_vote s g p_election p_list d = Inr (v, d')"
  with cast_vote_Inr_insert[of s g p_election p_list d v d']
  have r: "receipt_hash v = make_receipt (receipt_draw g)"
    and i: "insert_vote s (trigger_draw g) v d = Inr d'" by auto
  from a r have "receipt_hash v \<noteq> []" by (simp add: make_receipt_nonempty)
  with insert_vote_votes[OF i] have "votes d' = votes d @ [v]" by auto
  with r show "receipt_hash v = make_receipt (receipt_draw g)" "votes d' = votes d @ [v]"
    by simp_all
next
  assume "cast_vote s g p_election p_list d = Inr (v, d')
       \<and> cast_vote s2 g p_election2 p_list2 d2 = Inr (v2, d2')"
  with cast_vote_Inr_insert[of s g p_election p_list d v d']
       cast_vote_Inr_insert[of s2 g p_election2 p_list2 d2 v2 d2']
  show "receipt_hash v = receipt_hash v2" by auto
next
  assume "insert_vote s k new d = Inr d3"
  from insert_vote_votes[OF this]
  show "votes d3 = votes d @ [new\<lparr>receipt_hash :=
                                    if receipt_hash new = [] then make_receipt k
                                    else receipt_hash new\<rparr>]"
    by auto
qed

theorem receipts_unique_and_random_witness:
  "votes_receipt_hash_idx (run [CastVote voter first_draws election_1 list_a,
                                InsertVote voter (trigger_draw second_draws) first_ballot] demo_db)
   \<and> (\<exists>d1. cast_vote voter first_draws election_1 list_a demo_db = Inr (first_ballot, d1)
          \<and> votes d1 = votes demo_db @ [first_ballot])
   \<and> cast_vote voter first_draws election_1 list_a demo_db = Inr (first_ballot, voted_db)
   \<and> receipt_hash first_ballot = make_receipt (receipt_draw first_draws)
   \<and> receipt_hash first_ballot = ''f0000000000040008000000000000001''
   \<and> votes voted_db = votes demo_db @ [first_ballot]
   \<and> votes chosen_receipt_db = votes demo_db @ [chosen_receipt_ballot]"
proof -
  have h1: "votes_receipt_hash_idx demo_db" by code_simp
  have b: "ballot_of user_1 first_draws election_1 list_a = first_ballot" by code_simp
  have h2: "uid voter = Some user_1 \<and> is_admin voter = Inr (Some False)
       \<and> (\<exists>e \<in> set (elections demo_db). e_id e = election_1 \<and> status e = voting_open)
       \<and> votes_unique_ok (ballot_of user_1 first_draws election_1 list_a) demo_db
       \<and> votes_fk_ok (ballot_of user_1 first_draws election_1 list_a) demo_db
       \<and> is_canonical (receipt_draw first_draws)
       \<and> list_all (\<lambda>e. e_id e = election_1 \<longrightarrow> int4_range (total_votes e + 1))
            (elections demo_db)
       \<and> list_all (\<lambda>cl. cl_id cl = list_a \<longrightarrow> int4_range (votes_count cl + 1))
            (candidate_lists demo_db)"
    by code_simp
  have h3: "is_canonical (receipt_draw first_draws)
      \<and> cast_vote voter first_draws election_1 list_a demo_db = Inr (first_ballot, voted_db)"
    by code_simp
  have h4: "insert_vote voter (trigger_draw first_draws) chosen_receipt_ballot demo_db
      = Inr chosen_receipt_db" by code_simp
  have h5: "chosen_receipt_ballot\<lparr>receipt_hash :=
               if receipt_hash chosen_receipt_ballot = []
               then make_receipt (trigger_draw first_draws)
               else receipt_hash chosen_receipt_ballot\<rparr> = chosen_receipt_ballot" by code_simp
  have h6: "receipt_hash first_ballot = ''f0000000000040008000000000000001''" by code_simp
  note inv = receipts_unique_and_random[where d = demo_db
      and cs = "[CastVote voter first_draws election_1 list_a,
                 InsertVote voter (trigger_draw second_draws) first_ballot]"]
  note cast = receipts_unique_and_random[where d = demo_db and s = voter and u = user_1
      and a = "Some False" and g = first_draws and p_election = election_1 and p_list = list_a,
      unfolded b]
  note tok = receipts_unique_and_random[where d = demo_db and s = voter and g = first_draws
      and p_election = election_1 and p_list = list_a and v = first_ballot and d' = voted_db]
  note direct = receipts_unique_and_random[where d = demo_db and s = voter
      and k = "trigger_draw first_draws" and new = chosen_receipt_ballot
      and ?d3.0 = chosen_receipt_db, unfolded h5]
  from inv h1 have one: "votes_receipt_hash_idx
      (run [CastVote voter first_draws election_1 list_a,
            InsertVote voter (trigger_draw second_draws) first_ballot] demo_db)" by blast
  from cast h2[unfolded b]
  have two: "\<exists>d1. cast_vote voter first_draws election_1 list_a demo_db = Inr (first_ballot, d1)
          \<and> votes d1 = votes demo_db @ [first_ballot]" by blast
  from tok h3 have three: "receipt_hash first_ballot = make_receipt (receipt_draw first_draws)
      \<and> votes voted_db = votes demo_db @ [first_ballot]" by blast
  from direct h4 have four: "votes chosen_receipt_db = votes demo_db @ [chosen_receipt_ballot]"
    by blast
  from one two three four h3 h6 show ?thesis by blast
qed

text \<open>
  The claim as stated does not hold for every ballot: the insert policy admits a row that
  the voter inserts directly, the trigger leaves a receipt that is not empty alone, and
  the ballot stored carries the receipt the client chose, here the id of the chosen list.
\<close>

theorem receipt_chosen_by_client:
  "uid voter = Some (v_user_id chosen_receipt_ballot)
   \<and> insert_vote voter (trigger_draw first_draws) chosen_receipt_ballot demo_db
        = Inr chosen_receipt_db
   \<and> chosen_receipt_ballot \<in> set (votes chosen_receipt_db)
   \<and> receipt_hash chosen_receipt_ballot = v_candidate_list_id chosen_receipt_ballot
   \<and> receipt_hash chosen_receipt_ballot \<noteq> make_receipt (trigger_draw first_draws)"
  by code_simp

section \<open>Ballots are append-only\<close>

text \<open>
  What holds for the rows of \<^verbatim>\<open>votes\<close>. After any completed call other than
  \<^verbatim>\<open>admin_reset_election_votes\<close> the votes table is the one before, or the one before
  with one row appended; along any run without a reset the old table is a prefix of the new
  one; an \<^verbatim>\<open>UPDATE\<close> or \<^verbatim>\<open>DELETE\<close> on \<^verbatim>\<open>votes\<close> through the table interface touches no
  row, whoever the caller is, because no policy exists for either command; a reset by a
  caller for whom \<^verbatim>\<open>is_admin()\<close> is false changes nothing; and a reset either leaves the
  table as it was or removes exactly the ballots of the one election it names, all of them.
\<close>

lemma ballots_append_only:
  "(\<not> is_reset c \<longrightarrow> votes (step c d) = votes d \<or> (\<exists>v. votes (step c d) = votes d @ [v]))
   \<and> (list_all (\<lambda>c. \<not> is_reset c) cs \<longrightarrow> (\<exists>vs. votes (run cs d) = votes d @ vs))
   \<and> rest_update_votes s w f d = Inr d
   \<and> rest_delete_votes s w d = Inr d
   \<and> (is_admin s = Inr (Some False) \<longrightarrow> step (ResetElectionVotes s p_election_id) d = d)
   \<and> (votes (step (ResetElectionVotes s p_election_id) d) = votes d
      \<or> votes (step (ResetElectionVotes s p_election_id) d)
           = filter (\<lambda>v. v_election_id v \<noteq> p_election_id) (votes d))"
proof -
  have "votes (step (ResetElectionVotes s p_election_id) d) = votes d
      \<or> votes (step (ResetElectionVotes s p_election_id) d)
           = filter (\<lambda>v. v_election_id v \<noteq> p_election_id) (votes d)"
    by (cases "admin_reset_election_votes s p_election_id d")
       (auto simp: step_def dest: admin_reset_votes)
  moreover have "step (ResetElectionVotes s p_election_id) d = d"
    if "is_admin s = Inr (Some False)"
    using that by (simp add: step_def admin_reset_election_votes_def admin_guard_def)
  ultimately show ?thesis
    using step_votes run_votes rest_update_votes_none rest_delete_votes_none by blast
qed

text \<open>
  Claim C8, at the failing input. The caller whose \<^verbatim>\<open>user_metadata.roles\<close> is
  \<^verbatim>\<open>[null]\<close> is no administrator; \<^verbatim>\<open>is_admin()\<close> is null for it, the guard
  \<^verbatim>\<open>if not is_admin()\<close> of \<^verbatim>\<open>admin_reset_election_votes\<close> does not fire, and the call
  deletes the ballot the voter cast in election 1. The same call by the voter, for whom
  \<^verbatim>\<open>is_admin()\<close> is false, changes nothing.
\<close>

theorem ballot_deleted_by_non_administrator:
  "run [CastVote voter first_draws election_1 list_a] demo_db = voted_db
   \<and> first_ballot \<in> set (votes voted_db)
   \<and> jwt_roles null_role_caller = Inr [None]
   \<and> is_admin null_role_caller \<noteq> Inr (Some True)
   \<and> perform (ResetElectionVotes null_role_caller election_1) voted_db = Inr demo_db
   \<and> votes (step (ResetElectionVotes null_role_caller election_1) voted_db) = []
   \<and> first_ballot \<notin> set (votes (step (ResetElectionVotes null_role_caller election_1) voted_db))
   \<and> step (ResetElectionVotes voter election_1) voted_db = voted_db"
  by code_simp

section \<open>Role claims\<close>




section \<open>Tally consistency\<close>

lemma list_votes_lists_of: "list_votes d eid = sum_list (map votes_count (lists_of eid (candidate_lists d)))"
  by (simp add: list_votes_def lists_of_def)

lemma set_count_simps [simp]:
  "cl_id (set_count n cl) = cl_id cl"
  "cl_election_id (set_count n cl) = cl_election_id cl"
  "votes_count (set_count n cl) = n"
  by (simp_all add: set_count_def)

lemma set_total_simps [simp]:
  "e_id (set_total n e) = e_id e"
  "status (set_total n e) = status e"
  "total_votes (set_total n e) = n"
  by (simp_all add: set_total_def)

lemma bump_absent:
  "k \<notin> set (map cl_id cls) \<Longrightarrow>
     map (\<lambda>cl. if cl_id cl = k then set_count (votes_count cl + n) cl else cl) cls = cls"
  by (induction cls) auto

lemma sum_bump_one:
  assumes "distinct (map cl_id cls)"
    and "(k, eid) \<in> set (map (\<lambda>c. (cl_id c, cl_election_id c)) cls)"
  shows "sum_list (map votes_count (lists_of x
            (map (\<lambda>cl. if cl_id cl = k then set_count (votes_count cl + 1) cl else cl) cls)))
         = sum_list (map votes_count (lists_of x cls)) + (if x = eid then 1 else 0)"
  using assms
proof (induction cls)
  case Nil
  then show ?case by simp
next
  case (Cons c cls)
  show ?case
  proof (cases "cl_id c = k")
    case True
    with Cons.prems have absent: "k \<notin> set (map cl_id cls)" by auto
    with Cons.prems True have "cl_election_id c = eid" by (auto simp: image_iff)
    with True show ?thesis
      by (simp add: lists_of_def bump_absent[OF absent])
  next
    case False
    with Cons.prems have "(k, eid) \<in> set (map (\<lambda>c. (cl_id c, cl_election_id c)) cls)"
      "distinct (map cl_id cls)" by auto
    from Cons.IH[OF this(2) this(1)] False show ?thesis
      by (auto simp: lists_of_def)
  qed
qed

lemma sum_add_per_list:
  "sum_list (map votes_count (lists_of x
      (map (\<lambda>cl. if cl_election_id cl = eid then set_count (votes_count cl + f cl) cl else cl) cls)))
   = sum_list (map votes_count (lists_of x cls))
     + (if x = eid then sum_list (map f (lists_of eid cls)) else 0)"
  by (induction cls) (auto simp: lists_of_def)

lemma sum_reset_lists:
  "sum_list (map votes_count (lists_of x
      (map (\<lambda>cl. if cl_election_id cl = eid then set_count 0 cl else cl) cls)))
   = (if x = eid then 0 else sum_list (map votes_count (lists_of x cls)))"
  by (induction cls) (auto simp: lists_of_def)

lemma sum_single_key:
  assumes "distinct (map cl_id cls)" "c \<in> set cls" "cl_election_id c = eid" "cl_id c = k"
  shows "sum_list (map (\<lambda>cl. if cl_id cl = k then a else (0::int)) (lists_of eid cls)) = a"
  using assms
proof (induction cls)
  case Nil
  then show ?case by simp
next
  case (Cons x cls)
  show ?case
  proof (cases "x = c")
    case True
    with Cons.prems have "k \<notin> set (map cl_id cls)" by auto
    then have "sum_list (map (\<lambda>cl. if cl_id cl = k then a else (0::int)) (lists_of eid cls)) = 0"
      by (induction cls) (auto simp: lists_of_def)
    with True Cons.prems show ?thesis by (simp add: lists_of_def)
  next
    case False
    with Cons.prems have "c \<in> set cls" "distinct (map cl_id cls)" "cl_id x \<noteq> k"
      by (auto simp: image_iff)
    with Cons.IH Cons.prems show ?thesis by (simp add: lists_of_def)
  qed
qed

lemma sum_increments:
  assumes "distinct (map fst kvs)" "distinct (map cl_id cls)"
    and "\<forall>k \<in> set (map fst kvs). \<exists>c \<in> set cls. cl_id c = k \<and> cl_election_id c = eid"
  shows "sum_list (map (increment_of kvs) (lists_of eid cls)) = sum_list (map (\<lambda>kv. entry_count (snd kv)) kvs)"
  using assms
proof (induction kvs)
  case Nil
  then show ?case by (simp add: increment_of_def)
next
  case (Cons kv kvs)
  obtain k v where kv: "kv = (k, v)" by (cases kv)
  from Cons.prems kv have absent: "map_of kvs k = None"
    by (simp add: map_of_eq_None_iff)
  have decomp: "increment_of (kv # kvs) cl
      = (if cl_id cl = k then entry_count v else 0) + increment_of kvs cl" for cl
    using absent kv by (simp add: increment_of_def)
  from Cons.prems kv obtain c where c: "c \<in> set cls" "cl_id c = k" "cl_election_id c = eid"
    by auto
  have one: "sum_list (map (\<lambda>cl. if cl_id cl = k then entry_count v else 0) (lists_of eid cls))
      = entry_count v"
    using sum_single_key[OF Cons.prems(2) c(1) c(3) c(2)] .
  from Cons.prems have rest: "sum_list (map (increment_of kvs) (lists_of eid cls))
      = sum_list (map (\<lambda>kv. entry_count (snd kv)) kvs)"
    by (intro Cons.IH) auto
  have "sum_list (map (increment_of (kv # kvs)) (lists_of eid cls))
      = sum_list (map (\<lambda>cl. (if cl_id cl = k then entry_count v else 0) + increment_of kvs cl)
          (lists_of eid cls))"
    by (rule arg_cong[where f = sum_list]) (simp add: decomp)
  also have "\<dots> = sum_list (map (\<lambda>cl. if cl_id cl = k then entry_count v else 0) (lists_of eid cls))
        + sum_list (map (increment_of kvs) (lists_of eid cls))"
    by (rule sum_list_addf)
  finally have "sum_list (map (increment_of (kv # kvs)) (lists_of eid cls))
      = sum_list (map (\<lambda>cl. if cl_id cl = k then entry_count v else 0) (lists_of eid cls))
        + sum_list (map (increment_of kvs) (lists_of eid cls))" .
  with one rest kv show ?case by simp
qed

lemma sum_and_validate_total:
  "sum_and_validate eid d kvs t = Inr t' \<Longrightarrow>
     t' = t + sum_list (map (\<lambda>kv. entry_count (snd kv)) kvs)
     \<and> (\<forall>k \<in> set (map fst kvs). \<exists>u. uuid_in k = Some u
           \<and> (\<exists>c \<in> set (candidate_lists d). cl_id c = u \<and> cl_election_id c = eid))"
proof (induction kvs arbitrary: t)
  case Nil
  then show ?case by simp
next
  case (Cons kv kvs)
  obtain k v where kv: "kv = (k, v)" by (cases kv)
  from Cons.prems kv obtain u n t1 where
    u: "uuid_in k = Some u" and n: "cast_int v = Inr n"
    and ex: "list_ex (\<lambda>cl. cl_id cl = u \<and> cl_election_id cl = eid) (candidate_lists d)"
    and t1: "add_int4 t (coalesce n 0) = Inr t1"
    and rest: "sum_and_validate eid d kvs t1 = Inr t'"
    by (auto split: option.splits sum.splits if_splits)
  from t1 have "t1 = t + coalesce n 0" by (auto simp: add_int4_def split: if_splits)
  moreover from n have "entry_count v = coalesce n 0" by (simp add: entry_count_def)
  moreover note Cons.IH[OF rest]
  ultimately show ?case using kv u ex by (auto simp: list_ex_iff)
qed

lemma update_rows_add_distribution:
  "update_rows w (add_distribution kvs) cls = Inr cls' \<Longrightarrow>
     cls' = map (\<lambda>cl. if w cl then set_count (votes_count cl + increment_of kvs cl) cl else cl) cls"
proof (induction cls arbitrary: cls')
  case Nil
  then show ?case by simp
next
  case (Cons c cls)
  from Cons.prems obtain c' rs where
    c': "(if w c then add_distribution kvs c else Inr c) = Inr c'"
    and rs: "update_rows w (add_distribution kvs) cls = Inr rs"
    and cls': "cls' = c' # rs"
    by (auto split: sum.splits)
  have "c' = (if w c then set_count (votes_count c + increment_of kvs c) c else c)"
    using c'
    by (auto simp: add_distribution_def list_increment_def increment_of_def entry_count_def
          add_count_def add_int4_def split: if_splits sum.splits option.splits)
  with Cons.IH[OF rs] cls' show ?case by simp
qed


lemma ids_after_counts:
  "map (cl_id \<circ> (\<lambda>cl. if P cl then set_count (f cl) cl else cl)) cls = map cl_id cls"
  by (induction cls) auto

lemma admin_apply_simulation_effect:
  assumes "admin_apply_simulation s eid p d = Inr d'"
  shows "\<exists>kvs v_total. p = JObject kvs \<and> sum_and_validate eid d kvs 0 = Inr v_total
     \<and> d' = d\<lparr>candidate_lists :=
               map (\<lambda>cl. if cl_election_id cl = eid
                         then set_count (votes_count cl + increment_of kvs cl) cl else cl)
                 (candidate_lists d),
             elections :=
               map (\<lambda>e. if e_id e = eid then set_total (total_votes e + v_total) e else e)
                 (elections d)\<rparr>"
proof -
  from assms obtain kvs v_total cls es where
    p: "p = JObject kvs" and sv: "sum_and_validate eid d kvs 0 = Inr v_total"
    and cls: "update_rows (\<lambda>cl. cl_election_id cl = eid) (add_distribution kvs) (candidate_lists d) = Inr cls"
    and es: "update_rows (\<lambda>e. e_id e = eid) (add_total v_total) (elections d) = Inr es"
    and d': "d' = d\<lparr>candidate_lists := cls, elections := es\<rparr>"
    by (auto simp: admin_apply_simulation_def split: sum.splits if_splits jsonb.splits)
  from update_rows_add_distribution[OF cls] update_rows_add_total[OF es] p sv d'
  show ?thesis by simp
qed

lemma admin_reset_effect:
  assumes "admin_reset_election_votes s eid d = Inr d'"
  shows "d' = d\<lparr>votes := filter (\<lambda>v. v_election_id v \<noteq> eid) (votes d),
                 candidate_lists :=
                   map (\<lambda>cl. if cl_election_id cl = eid then set_count 0 cl else cl)
                     (candidate_lists d),
                 elections :=
                   map (\<lambda>e. if e_id e = eid then set_total 0 e else e) (elections d)\<rparr>"
  using assms by (auto simp: admin_reset_election_votes_def split: sum.splits)

lemma insert_vote_totals_lists:
  assumes i: "insert_vote s g new d = Inr d'"
    and pk: "candidate_lists_pkey d" and tm: "totals_match_lists d"
  shows "totals_match_lists d' \<and> candidate_lists_pkey d'"
proof -
  from insert_vote_effect[OF i] obtain r where
    d': "d' = d\<lparr>votes := votes d @ [new\<lparr>receipt_hash := r\<rparr>],
                   elections := map (\<lambda>e. if e_id e = v_election_id new
                                          then set_total (total_votes e + 1) e else e) (elections d),
                   candidate_lists := map (\<lambda>cl. if cl_id cl = v_candidate_list_id new
                                          then set_count (votes_count cl + 1) cl else cl) (candidate_lists d)\<rparr>"
    by blast
  from insert_vote_Inr_permitted[OF i] have fk:
    "(v_candidate_list_id new, v_election_id new)
       \<in> set (map (\<lambda>cl. (cl_id cl, cl_election_id cl)) (candidate_lists d))"
    by (simp add: votes_fk_ok_def)
  from pk have dist: "distinct (map cl_id (candidate_lists d))"
    by (simp add: candidate_lists_pkey_def)
  have lv: "list_votes d' x = list_votes d x + (if x = v_election_id new then 1 else 0)" for x
    unfolding list_votes_lists_of d' using sum_bump_one[OF dist fk, of x] by simp
  from tm have "totals_match_lists d'"
    unfolding totals_match_lists_def list_all_iff lv
    by (auto simp: d')
  moreover from dist have "candidate_lists_pkey d'"
    by (simp add: candidate_lists_pkey_def d' ids_after_counts)
  ultimately show ?thesis by simp
qed

lemma simulation_totals_lists:
  assumes a: "admin_apply_simulation s eid (JObject kvs) d = Inr d'"
    and keys: "distinct (map fst kvs)" "list_all (\<lambda>kv. is_canonical (fst kv)) kvs"
    and pk: "candidate_lists_pkey d" and tm: "totals_match_lists d"
  shows "totals_match_lists d' \<and> candidate_lists_pkey d'"
proof -
  from admin_apply_simulation_effect[OF a] obtain v_total where
    sv: "sum_and_validate eid d kvs 0 = Inr v_total"
    and d': "d' = d\<lparr>candidate_lists :=
               map (\<lambda>cl. if cl_election_id cl = eid
                         then set_count (votes_count cl + increment_of kvs cl) cl else cl)
                 (candidate_lists d),
             elections :=
               map (\<lambda>e. if e_id e = eid then set_total (total_votes e + v_total) e else e)
                 (elections d)\<rparr>"
    by auto
  from pk have dist: "distinct (map cl_id (candidate_lists d))"
    by (simp add: candidate_lists_pkey_def)
  from sum_and_validate_total[OF sv] have
    total: "v_total = sum_list (map (\<lambda>kv. entry_count (snd kv)) kvs)"
    and named: "\<forall>k \<in> set (map fst kvs). \<exists>u. uuid_in k = Some u
           \<and> (\<exists>c \<in> set (candidate_lists d). cl_id c = u \<and> cl_election_id c = eid)"
    by simp_all
  have "\<forall>k \<in> set (map fst kvs). \<exists>c \<in> set (candidate_lists d). cl_id c = k \<and> cl_election_id c = eid"
  proof
    fix k assume k: "k \<in> set (map fst kvs)"
    with keys(2) have "uuid_in k = Some k"
      by (auto simp: list_all_iff is_canonical_def)
    with named k show "\<exists>c \<in> set (candidate_lists d). cl_id c = k \<and> cl_election_id c = eid"
      by fastforce
  qed
  from sum_increments[OF keys(1) dist this] total
  have inc: "sum_list (map (increment_of kvs) (lists_of eid (candidate_lists d))) = v_total"
    by simp
  have lv: "list_votes d' x = list_votes d x + (if x = eid then v_total else 0)" for x
    unfolding list_votes_lists_of d' using sum_add_per_list[of x eid "increment_of kvs"] inc
    by simp
  from tm have "totals_match_lists d'"
    unfolding totals_match_lists_def list_all_iff lv
    by (auto simp: d')
  moreover from dist have "candidate_lists_pkey d'"
    by (simp add: candidate_lists_pkey_def d' ids_after_counts)
  ultimately show ?thesis by simp
qed

lemma reset_totals_lists:
  assumes a: "admin_reset_election_votes s eid d = Inr d'"
    and pk: "candidate_lists_pkey d" and tm: "totals_match_lists d"
  shows "totals_match_lists d' \<and> candidate_lists_pkey d'"
proof -
  note d' = admin_reset_effect[OF a]
  have lv: "list_votes d' x = (if x = eid then 0 else list_votes d x)" for x
    unfolding list_votes_lists_of by (subst d') (simp add: sum_reset_lists)
  from tm have "totals_match_lists d'"
    unfolding totals_match_lists_def list_all_iff lv
    by (subst d') auto
  moreover from pk have "candidate_lists_pkey d'"
    unfolding candidate_lists_pkey_def by (subst d') (simp add: ids_after_counts)
  ultimately show ?thesis by simp
qed

lemma step_totals_lists:
  assumes wk: "well_keyed c" and pk: "candidate_lists_pkey d" and tm: "totals_match_lists d"
  shows "totals_match_lists (step c d) \<and> candidate_lists_pkey (step c d)"
proof (cases "perform c d")
  case (Inl e)
  with pk tm show ?thesis by (simp add: step_def)
next
  case (Inr d')
  have "totals_match_lists d' \<and> candidate_lists_pkey d'"
  proof (cases c)
    case (CastVote s g p_election p_list)
    with Inr obtain v where "cast_vote s g p_election p_list d = Inr (v, d')"
      by (auto split: sum.splits)
    with cast_vote_Inr_insert obtain g' where "insert_vote s g' v d = Inr d'" by blast
    from insert_vote_totals_lists[OF this pk tm] show ?thesis .
  next
    case (InsertVote s g new)
    with Inr have "insert_vote s g new d = Inr d'" by simp
    from insert_vote_totals_lists[OF this pk tm] show ?thesis .
  next
    case (UpdateVotes s w f)
    with Inr pk tm show ?thesis by (simp add: rest_update_votes_none)
  next
    case (DeleteVotes s w)
    with Inr pk tm show ?thesis by (simp add: rest_delete_votes_none)
  next
    case (ApplySimulatedDistribution s eid p)
    with Inr have a: "admin_apply_simulation s eid p d = Inr d'" by simp
    with admin_apply_simulation_effect obtain kvs where p: "p = JObject kvs" by blast
    with wk ApplySimulatedDistribution have
      "distinct (map fst kvs)" "list_all (\<lambda>kv. is_canonical (fst kv)) kvs" by simp_all
    from simulation_totals_lists[OF a[unfolded p] this pk tm] show ?thesis .
  next
    case (ResetElectionVotes s eid)
    with Inr have "admin_reset_election_votes s eid d = Inr d'" by simp
    from reset_totals_lists[OF this pk tm] show ?thesis .
  qed
  with Inr show ?thesis by (simp add: step_def)
qed

lemma run_totals_lists:
  "list_all well_keyed cs \<Longrightarrow> candidate_lists_pkey d \<Longrightarrow> totals_match_lists d \<Longrightarrow>
     totals_match_lists (run cs d) \<and> candidate_lists_pkey (run cs d)"
proof (induction cs arbitrary: d)
  case Nil
  then show ?case by (simp add: run_def)
next
  case (Cons c cs)
  then have "well_keyed c" "list_all well_keyed cs" by simp_all
  from step_totals_lists[OF this(1) Cons.prems(2,3)] Cons.IH[OF this(2), of "step c d"]
  show ?case by (simp add: run_def)
qed

lemma insert_vote_totals_ballots:
  assumes i: "insert_vote s g new d = Inr d'" and tm: "totals_match_ballots d"
  shows "totals_match_ballots d'"
proof -
  from insert_vote_effect[OF i] obtain r where
    d': "d' = d\<lparr>votes := votes d @ [new\<lparr>receipt_hash := r\<rparr>],
                   elections := map (\<lambda>e. if e_id e = v_election_id new
                                          then set_total (total_votes e + 1) e else e) (elections d),
                   candidate_lists := map (\<lambda>cl. if cl_id cl = v_candidate_list_id new
                                          then set_count (votes_count cl + 1) cl else cl) (candidate_lists d)\<rparr>"
    by blast
  have b: "int (length (ballots d' x))
      = int (length (ballots d x)) + (if x = v_election_id new then 1 else 0)" for x
    by (simp add: ballots_def d')
  from tm show ?thesis
    unfolding totals_match_ballots_def list_all_iff b
    by (auto simp: d')
qed

lemma reset_totals_ballots:
  assumes a: "admin_reset_election_votes s eid d = Inr d'" and tm: "totals_match_ballots d"
  shows "totals_match_ballots d'"
proof -
  note d' = admin_reset_effect[OF a]
  have b: "ballots d' x = (if x = eid then [] else ballots d x)" for x
    unfolding ballots_def by (subst d') (auto simp: filter_empty_conv intro: filter_cong)
  from tm show ?thesis
    unfolding totals_match_ballots_def list_all_iff b
    by (subst d') auto
qed

lemma step_totals_ballots:
  assumes ns: "\<not> is_simulation c" and tm: "totals_match_ballots d"
  shows "totals_match_ballots (step c d)"
proof (cases "perform c d")
  case (Inl e)
  with tm show ?thesis by (simp add: step_def)
next
  case (Inr d')
  have "totals_match_ballots d'"
  proof (cases c)
    case (CastVote s g p_election p_list)
    with Inr obtain v where "cast_vote s g p_election p_list d = Inr (v, d')"
      by (auto split: sum.splits)
    with cast_vote_Inr_insert obtain g' where "insert_vote s g' v d = Inr d'" by blast
    from insert_vote_totals_ballots[OF this tm] show ?thesis .
  next
    case (InsertVote s g new)
    with Inr have "insert_vote s g new d = Inr d'" by simp
    from insert_vote_totals_ballots[OF this tm] show ?thesis .
  next
    case (UpdateVotes s w f)
    with Inr tm show ?thesis by (simp add: rest_update_votes_none)
  next
    case (DeleteVotes s w)
    with Inr tm show ?thesis by (simp add: rest_delete_votes_none)
  next
    case (ApplySimulatedDistribution s eid p)
    with ns show ?thesis by simp
  next
    case (ResetElectionVotes s eid)
    with Inr have "admin_reset_election_votes s eid d = Inr d'" by simp
    from reset_totals_ballots[OF this tm] show ?thesis .
  qed
  with Inr show ?thesis by (simp add: step_def)
qed

lemma run_totals_ballots:
  "list_all (\<lambda>c. \<not> is_simulation c) cs \<Longrightarrow> totals_match_ballots d \<Longrightarrow>
     totals_match_ballots (run cs d)"
proof (induction cs arbitrary: d)
  case Nil
  then show ?case by (simp add: run_def)
next
  case (Cons c cs)
  then have "\<not> is_simulation c" "list_all (\<lambda>c. \<not> is_simulation c) cs" by simp_all
  from step_totals_ballots[OF this(1) Cons.prems(2)] Cons.IH[OF this(2), of "step c d"]
  show ?case by (simp add: run_def)
qed

text \<open>
  Claim C2, as amended. From a database in which list ids are unique and every election's
  \<^verbatim>\<open>total_votes\<close> is the sum of its lists' \<^verbatim>\<open>votes_count\<close>, that equality holds after any
  run of completed calls whose simulated distributions are keyed by the canonical text of
  list ids. From a database in which every election's \<^verbatim>\<open>total_votes\<close> is the number of
  its ballot rows, that equality holds after any run without a simulated distribution.
  (A simulated distribution raises the counters and inserts no ballot row.)
\<close>

theorem tally_consistency:
  "(candidate_lists_pkey d \<and> totals_match_lists d \<and> list_all well_keyed cs
     \<longrightarrow> totals_match_lists (run cs d))
   \<and> (totals_match_ballots d \<and> list_all (\<lambda>c. \<not> is_simulation c) cs
     \<longrightarrow> totals_match_ballots (run cs d))"
  using run_totals_lists run_totals_ballots by blast

theorem tally_consistency_witness:
  "totals_match_lists
     (run [CastVote voter first_draws election_1 list_a,
           ApplySimulatedDistribution self_declared_admin election_1 (JObject [(list_a, JInt 5)])]
        demo_db)
   \<and> totals_match_ballots
     (run [CastVote voter first_draws election_1 list_a,
           CastVote voter second_draws election_1 list_a,
           ResetElectionVotes self_declared_admin election_2] demo_db)"
proof -
  let ?cs = "[CastVote voter first_draws election_1 list_a,
           ApplySimulatedDistribution self_declared_admin election_1 (JObject [(list_a, JInt 5)])]"
  let ?ds = "[CastVote voter first_draws election_1 list_a,
           CastVote voter second_draws election_1 list_a,
           ResetElectionVotes self_declared_admin election_2]"
  have h1: "candidate_lists_pkey demo_db \<and> totals_match_lists demo_db \<and> list_all well_keyed ?cs"
    by code_simp
  have h2: "totals_match_ballots demo_db \<and> list_all (\<lambda>c. \<not> is_simulation c) ?ds"
    by code_simp
  from tally_consistency[where d = demo_db and cs = ?cs] h1
  have one: "totals_match_lists (run ?cs demo_db)" by blast
  from tally_consistency[where d = demo_db and cs = ?ds] h2
  have two: "totals_match_ballots (run ?ds demo_db)" by blast
  from one two show ?thesis by blast
qed

text \<open>
  The claim as stated does not hold: a simulated distribution of 5 votes to list A leaves
  election 1 with \<^verbatim>\<open>total_votes\<close> 5 and list votes 5, and with no ballot row.
\<close>

theorem simulation_outruns_ballots:
  "totals_match_lists demo_db \<and> totals_match_ballots demo_db
   \<and> run [ApplySimulatedDistribution self_declared_admin election_1 (JObject [(list_a, JInt 5)])]
        demo_db = simulated_db
   \<and> map total_votes (elections simulated_db) = [5, 0]
   \<and> list_votes simulated_db election_1 = 5
   \<and> ballots simulated_db election_1 = []
   \<and> \<not> totals_match_ballots simulated_db"
  by code_simp

section \<open>Counts of a simulated distribution\<close>






section \<open>The admin procedures for a caller whose is_admin() is true or false\<close>

lemma sum_and_validate_named:
  assumes "k \<in> set (map fst kvs)"
    and "\<forall>u. uuid_in k = Some u \<longrightarrow>
           \<not> (\<exists>c \<in> set (candidate_lists d). cl_id c = u \<and> cl_election_id c = eid)"
  shows "\<exists>e. sum_and_validate eid d kvs t = Inl e"
proof (cases "sum_and_validate eid d kvs t")
  case (Inl e)
  then show ?thesis by blast
next
  case (Inr t')
  from sum_and_validate_total[OF Inr] assms show ?thesis by blast
qed

lemma reset_ballots:
  assumes a: "admin_reset_election_votes s eid d = Inr d'"
  shows "ballots d' x = (if x = eid then [] else ballots d x)"
  unfolding ballots_def
  by (subst admin_reset_effect[OF a]) (auto simp: filter_empty_conv intro: filter_cong)

lemma reset_list_votes:
  assumes a: "admin_reset_election_votes s eid d = Inr d'"
  shows "list_votes d' x = (if x = eid then 0 else list_votes d x)"
  unfolding list_votes_lists_of
  by (subst admin_reset_effect[OF a]) (simp add: sum_reset_lists)

lemma counts_after_reset:
  "list_all (\<lambda>cl. votes_count cl = 0)
     (lists_of eid (map (\<lambda>cl. if cl_election_id cl = eid then set_count 0 cl else cl) cls))"
  by (induction cls) (simp_all add: lists_of_def)

lemma totals_after_reset:
  "list_all (\<lambda>e. total_votes e = 0)
     (filter (\<lambda>e. e_id e = eid) (map (\<lambda>e. if e_id e = eid then set_total 0 e else e) es))"
  by (induction es) simp_all

lemma reset_counts:
  assumes a: "admin_reset_election_votes s eid d = Inr d'"
  shows "list_all (\<lambda>cl. votes_count cl = 0) (lists_of eid (candidate_lists d'))"
  by (subst admin_reset_effect[OF a]) (simp add: counts_after_reset)

lemma reset_totals:
  assumes a: "admin_reset_election_votes s eid d = Inr d'"
  shows "list_all (\<lambda>e. total_votes e = 0) (filter (\<lambda>e. e_id e = eid) (elections d'))"
  by (subst admin_reset_effect[OF a]) (simp add: totals_after_reset)

text \<open>
  \<^verbatim>\<open>admin_apply_simulation\<close> is all-or-nothing. A caller whose \<^verbatim>\<open>is_admin()\<close> is false is
  refused. A distribution with a key that names no list of the election (whatever uuid the
  key reads as, if any) makes the call fail and changes nothing. A call that succeeds
  leaves the ballots alone, adds the sum of the counts to the election's total, and adds
  to every list of the election the count stored under the text of its id.
\<close>

theorem simulation_all_or_nothing:
  "(is_admin s = Inr (Some False)
     \<longrightarrow> admin_apply_simulation s eid p d = Inl SoloAdministradores)
   \<and> (k \<in> set (map fst kvs)
       \<and> (\<forall>u. uuid_in k = Some u \<longrightarrow>
             \<not> (\<exists>c \<in> set (candidate_lists d). cl_id c = u \<and> cl_election_id c = eid))
     \<longrightarrow> (\<exists>e. admin_apply_simulation s eid (JObject kvs) d = Inl e)
         \<and> step (ApplySimulatedDistribution s eid (JObject kvs)) d = d)
   \<and> (admin_apply_simulation s eid (JObject kvs) d = Inr d'
     \<longrightarrow> votes d' = votes d
         \<and> elections d'
             = map (\<lambda>e. if e_id e = eid
                         then set_total (total_votes e
                                + sum_list (map (\<lambda>kv. entry_count (snd kv)) kvs)) e
                         else e) (elections d)
         \<and> candidate_lists d'
             = map (\<lambda>cl. if cl_election_id cl = eid
                          then set_count (votes_count cl + increment_of kvs cl) cl else cl)
                 (candidate_lists d))"
proof (intro conjI impI)
  assume "is_admin s = Inr (Some False)"
  then show "admin_apply_simulation s eid p d = Inl SoloAdministradores"
    by (simp add: admin_apply_simulation_def admin_guard_def)
next
  assume a: "k \<in> set (map fst kvs)
       \<and> (\<forall>u. uuid_in k = Some u \<longrightarrow>
             \<not> (\<exists>c \<in> set (candidate_lists d). cl_id c = u \<and> cl_election_id c = eid))"
  then obtain e where "sum_and_validate eid d kvs 0 = Inl e"
    using sum_and_validate_named[of k kvs d eid 0] by blast
  then show f: "\<exists>e. admin_apply_simulation s eid (JObject kvs) d = Inl e"
    by (auto simp: admin_apply_simulation_def split: sum.splits)
  then show "step (ApplySimulatedDistribution s eid (JObject kvs)) d = d"
    by (auto simp: step_def)
next
  assume r: "admin_apply_simulation s eid (JObject kvs) d = Inr d'"
  from admin_apply_simulation_effect[OF r] obtain v_total where
    sv: "sum_and_validate eid d kvs 0 = Inr v_total"
    and d': "d' = d\<lparr>candidate_lists :=
               map (\<lambda>cl. if cl_election_id cl = eid
                         then set_count (votes_count cl + increment_of kvs cl) cl else cl)
                 (candidate_lists d),
             elections :=
               map (\<lambda>e. if e_id e = eid then set_total (total_votes e + v_total) e else e)
                 (elections d)\<rparr>"
    by auto
  from sum_and_validate_total[OF sv]
  have total: "v_total = sum_list (map (\<lambda>kv. entry_count (snd kv)) kvs)" by simp
  show "votes d' = votes d" by (simp add: d')
  show "elections d'
             = map (\<lambda>e. if e_id e = eid
                         then set_total (total_votes e
                                + sum_list (map (\<lambda>kv. entry_count (snd kv)) kvs)) e
                         else e) (elections d)"
    by (simp add: d' total)
  show "candidate_lists d'
             = map (\<lambda>cl. if cl_election_id cl = eid
                          then set_count (votes_count cl + increment_of kvs cl) cl else cl)
                 (candidate_lists d)"
    by (simp add: d')
qed


theorem simulation_all_or_nothing_witness:
  "admin_apply_simulation voter election_1 (JObject [(list_a, JInt 5)]) demo_db
     = Inl SoloAdministradores
   \<and> (\<exists>e. admin_apply_simulation self_declared_admin election_1
            (JObject [(list_a, JInt 5), (list_b, JInt 7)]) demo_db = Inl e)
   \<and> step (ApplySimulatedDistribution self_declared_admin election_1
            (JObject [(list_a, JInt 5), (list_b, JInt 7)])) demo_db = demo_db
   \<and> votes simulated_db = votes demo_db
   \<and> map total_votes (elections simulated_db) = [5, 0]
   \<and> map votes_count (candidate_lists simulated_db) = [5, 0]"
proof -
  have h1: "is_admin voter = Inr (Some False)" by code_simp
  have h2: "list_b \<in> set (map fst [(list_a, JInt 5), (list_b, JInt (7::int))])" by simp
  have h3: "uuid_in list_b = Some list_b" by code_simp
  have h4: "\<not> (\<exists>c \<in> set (candidate_lists demo_db). cl_id c = list_b \<and> cl_election_id c = election_1)"
    by code_simp
  have h5: "admin_apply_simulation self_declared_admin election_1 (JObject [(list_a, JInt 5)]) demo_db
      = Inr simulated_db" by code_simp
  have h6: "votes simulated_db = votes demo_db
      \<and> map total_votes (elections simulated_db) = [5, 0]
      \<and> map votes_count (candidate_lists simulated_db) = [5, 0]" by code_simp
  note refused = simulation_all_or_nothing[where s = voter and eid = election_1
      and p = "JObject [(list_a, JInt 5)]" and d = demo_db]
  note aborted = simulation_all_or_nothing[where s = self_declared_admin and eid = election_1
      and k = list_b and kvs = "[(list_a, JInt 5), (list_b, JInt 7)]" and d = demo_db]
  from h3 h4 have h34: "\<forall>u. uuid_in list_b = Some u \<longrightarrow>
      \<not> (\<exists>c \<in> set (candidate_lists demo_db). cl_id c = u \<and> cl_election_id c = election_1)"
    by simp
  from refused h1 have one: "admin_apply_simulation voter election_1 (JObject [(list_a, JInt 5)]) demo_db
     = Inl SoloAdministradores" by blast
  from aborted h2 h34 have two: "(\<exists>e. admin_apply_simulation self_declared_admin election_1
            (JObject [(list_a, JInt 5), (list_b, JInt 7)]) demo_db = Inl e)
   \<and> step (ApplySimulatedDistribution self_declared_admin election_1
            (JObject [(list_a, JInt 5), (list_b, JInt 7)])) demo_db = demo_db" by blast
  from one two h6 show ?thesis by blast
qed

text \<open>
  \<^verbatim>\<open>admin_reset_election_votes\<close> by a caller whose \<^verbatim>\<open>is_admin()\<close> is true returns with no
  ballot of the election left, every list of the election and the election itself at 0,
  and the ballots and list votes of every other election as they were; a caller whose
  \<^verbatim>\<open>is_admin()\<close> is false is refused and nothing changes.
\<close>

theorem reset_by_administrator:
  "(is_admin s = Inr (Some True) \<longrightarrow>
      (\<exists>d'. admin_reset_election_votes s eid d = Inr d'
           \<and> ballots d' eid = []
           \<and> list_all (\<lambda>cl. votes_count cl = 0) (lists_of eid (candidate_lists d'))
           \<and> list_all (\<lambda>e. total_votes e = 0) (filter (\<lambda>e. e_id e = eid) (elections d'))
           \<and> (\<forall>x. x \<noteq> eid \<longrightarrow> ballots d' x = ballots d x \<and> list_votes d' x = list_votes d x)))
   \<and> (is_admin s = Inr (Some False) \<longrightarrow>
        admin_reset_election_votes s eid d = Inl SoloAdministradores
        \<and> step (ResetElectionVotes s eid) d = d)"
proof (intro conjI impI)
  assume "is_admin s = Inr (Some True)"
  then obtain d' where r: "admin_reset_election_votes s eid d = Inr d'"
    by (simp add: admin_reset_election_votes_def admin_guard_def)
  from reset_ballots[OF r] reset_list_votes[OF r] reset_counts[OF r] reset_totals[OF r] r
  show "\<exists>d'. admin_reset_election_votes s eid d = Inr d'
           \<and> ballots d' eid = []
           \<and> list_all (\<lambda>cl. votes_count cl = 0) (lists_of eid (candidate_lists d'))
           \<and> list_all (\<lambda>e. total_votes e = 0) (filter (\<lambda>e. e_id e = eid) (elections d'))
           \<and> (\<forall>x. x \<noteq> eid \<longrightarrow> ballots d' x = ballots d x \<and> list_votes d' x = list_votes d x)"
    by simp
next
  assume "is_admin s = Inr (Some False)"
  then have "admin_reset_election_votes s eid d = Inl SoloAdministradores"
    by (simp add: admin_reset_election_votes_def admin_guard_def)
  then show "admin_reset_election_votes s eid d = Inl SoloAdministradores"
    "step (ResetElectionVotes s eid) d = d"
    by (simp_all add: step_def)
qed

theorem reset_by_administrator_witness:
  "(\<exists>d'. admin_reset_election_votes self_declared_admin election_1 voted_db = Inr d'
           \<and> ballots d' election_1 = []
           \<and> list_all (\<lambda>cl. votes_count cl = 0) (lists_of election_1 (candidate_lists d'))
           \<and> list_all (\<lambda>e. total_votes e = 0) (filter (\<lambda>e. e_id e = election_1) (elections d')))
   \<and> admin_reset_election_votes voter election_1 voted_db = Inl SoloAdministradores
   \<and> step (ResetElectionVotes voter election_1) voted_db = voted_db"
proof -
  have h1: "is_admin self_declared_admin = Inr (Some True)" by code_simp
  have h2: "is_admin voter = Inr (Some False)" by code_simp
  from reset_by_administrator[where s = self_declared_admin and eid = election_1 and d = voted_db] h1
  have one: "\<exists>d'. admin_reset_election_votes self_declared_admin election_1 voted_db = Inr d'
           \<and> ballots d' election_1 = []
           \<and> list_all (\<lambda>cl. votes_count cl = 0) (lists_of election_1 (candidate_lists d'))
           \<and> list_all (\<lambda>e. total_votes e = 0) (filter (\<lambda>e. e_id e = election_1) (elections d'))"
    by blast
  from reset_by_administrator[where s = voter and eid = election_1 and d = voted_db] h2
  have two: "admin_reset_election_votes voter election_1 voted_db = Inl SoloAdministradores
   \<and> step (ResetElectionVotes voter election_1) voted_db = voted_db" by blast
  from one two show ?thesis by blast
qed

section \<open>Where the admin procedures miss their contract\<close>

text \<open>
  Claim C5, at the failing input. A caller whose \<^verbatim>\<open>user_metadata.roles\<close> is \<^verbatim>\<open>[null]\<close> is
  no administrator, \<^verbatim>\<open>is_admin()\<close> is null for it, the guard
  \<^verbatim>\<open>if not is_admin()\<close> does not fire, and the reset deletes the ballot of election 1 and
  zeroes its counters. (A caller without any role claim is refused.)
\<close>

theorem reset_by_null_role_caller:
  "jwt_roles null_role_caller = Inr [None]
   \<and> is_admin null_role_caller = Inr None
   \<and> admin_reset_election_votes null_role_caller election_1 voted_db = Inr demo_db
   \<and> admin_reset_election_votes voter election_1 voted_db = Inl SoloAdministradores"
  by code_simp

text \<open>
  Claim C6, at the failing input. The loop casts each key to a uuid, which accepts upper
  case, and the update looks the list's id up as lower-case text: a distribution that
  names list A in upper case passes the validation, adds 5 to the election's total and
  nothing to the list. The caller with the null role is let through here as well.
\<close>

theorem simulation_with_uppercase_key:
  "uuid_in ''A0EEBC99-9C0B-4EF8-BB6D-6BB9BD380A11'' = Some list_a
   \<and> admin_apply_simulation self_declared_admin election_1
        (JObject [(''A0EEBC99-9C0B-4EF8-BB6D-6BB9BD380A11'', JInt 5)]) demo_db = Inr drifted_db
   \<and> list_votes drifted_db election_1 = 0
   \<and> map total_votes (elections drifted_db) = [5, 0]
   \<and> admin_apply_simulation null_role_caller election_1 (JObject [(list_a, JInt 5)]) demo_db
        = Inr simulated_db"
  by code_simp

end
